theory Spec2Isabelle
  imports Complex_Main
begin

section \<open>Numbers, errors and tensors\<close>

text \<open>
  The program is \<^verbatim>\<open>SceneRecognition.py\<close>: two PyTorch classifiers (\<^verbatim>\<open>SimpleFCNet\<close>,
  \<^verbatim>\<open>SimpleConvNet\<close>) and the loops \<^verbatim>\<open>train_model\<close> and \<^verbatim>\<open>test_model\<close>.
  Scalars are modelled as real numbers: the floating-point values of the program are
  idealised, so overflow and NaN are outside this development, and so is rounding,
  except in the softmax of the forward pass, for which a rounded form is given beside
  the exact one because rounding decides which class it predicts.

  A tensor is a nested list whose outermost level is the batch dimension. The ranks
  that image batches and their features have are covered: rank 2 \<open>[B, F]\<close>, rank 3
  \<open>[B, H, W]\<close> and rank 4 \<open>[B, C, H, W]\<close>. A dimension of a nested list is read off
  its first element, so a tensor with an empty dimension carries no size for the
  dimensions below it.
\<close>

datatype error =
    RuntimeError          \<comment> \<open>raised by torch on a shape mismatch\<close>
  | ValueError            \<comment> \<open>raised by torch on an unsupported input\<close>
  | IndexError            \<comment> \<open>raised by torch on a reduction over an empty dimension\<close>
  | ZeroDivisionError     \<comment> \<open>raised by Python's \<^verbatim>\<open>/\<close>\<close>
  | ConfigurationError    \<comment> \<open>named by the specification; no statement of the program raises it\<close>

datatype tensor =
    T2 "real list list"
  | T3 "real list list list"
  | T4 "real list list list list"

type_synonym generator = "nat \<Rightarrow> real"

text \<open>
  The random generator is the stream of its future draws, each in \<open>[0, 1)\<close>.
  Drawing \<open>n\<close> numbers returns the first \<open>n\<close> and the generator advanced by \<open>n\<close>.
\<close>

definition draws :: "nat \<Rightarrow> generator \<Rightarrow> real list \<times> generator" where
  "draws n g = (map g [0..<n], \<lambda>i. g (i + n))"

fun map_accum :: "('s \<Rightarrow> 'a \<Rightarrow> 'b \<times> 's) \<Rightarrow> 's \<Rightarrow> 'a list \<Rightarrow> 'b list \<times> 's" where
  "map_accum f s [] = ([], s)"
| "map_accum f s (x # xs) =
     (case f s x of (y, s') \<Rightarrow> (case map_accum f s' xs of (ys, s'') \<Rightarrow> (y # ys, s'')))"

section \<open>The layers of \<^verbatim>\<open>torch.nn\<close> that the classifiers use\<close>

datatype layer =
    Flatten
  | Linear nat nat "real list list" "real list option"
      \<comment> \<open>in_features, out_features, weight (out rows of in entries), bias\<close>
  | ReLU
  | Conv2d nat nat nat nat "real list list list list" "real list"
      \<comment> \<open>in_channels, out_channels, kernel_size, stride, weight \<open>[out][in][k][k]\<close>, bias\<close>
  | BatchNorm2d nat "real list" "real list" "real list" "real list" nat
      \<comment> \<open>num_features, weight, bias, running_mean, running_var, num_batches_tracked\<close>
  | MaxPool2d nat nat
      \<comment> \<open>kernel_size, stride\<close>
  | Dropout real

subsection \<open>Flatten, Linear, ReLU\<close>

fun flatten :: "tensor \<Rightarrow> tensor" where
  "flatten (T2 x) = T2 x"
| "flatten (T3 x) = T2 (map concat x)"
| "flatten (T4 x) = T2 (map (\<lambda>e. concat (map concat e)) x)"

definition dot :: "real list \<Rightarrow> real list \<Rightarrow> real" where
  "dot w x = sum_list (map2 (*) w x)"

definition affine :: "real list list \<Rightarrow> real list option \<Rightarrow> real list \<Rightarrow> real list" where
  "affine W b x =
     (case b of
        None \<Rightarrow> map (\<lambda>w. dot w x) W
      | Some bs \<Rightarrow> map2 (+) (map (\<lambda>w. dot w x) W) bs)"

text \<open>
  \<^verbatim>\<open>nn.Linear\<close> acts on the last dimension, which must have \<open>in_features\<close> entries;
  otherwise torch raises a RuntimeError.
\<close>

fun linear_fwd :: "nat \<Rightarrow> real list list \<Rightarrow> real list option \<Rightarrow> tensor \<Rightarrow> error + tensor" where
  "linear_fwd n W b (T2 x) =
     (if list_all (\<lambda>r. length r = n) x then Inr (T2 (map (affine W b) x))
      else Inl RuntimeError)"
| "linear_fwd n W b (T3 x) =
     (if list_all (list_all (\<lambda>r. length r = n)) x then Inr (T3 (map (map (affine W b)) x))
      else Inl RuntimeError)"
| "linear_fwd n W b (T4 x) =
     (if list_all (list_all (list_all (\<lambda>r. length r = n))) x
      then Inr (T4 (map (map (map (affine W b))) x))
      else Inl RuntimeError)"

fun relu :: "tensor \<Rightarrow> tensor" where
  "relu (T2 x) = T2 (map (map (max 0)) x)"
| "relu (T3 x) = T3 (map (map (map (max 0))) x)"
| "relu (T4 x) = T4 (map (map (map (map (max 0)))) x)"

subsection \<open>Conv2d and MaxPool2d\<close>

text \<open>
  Height and width of one example \<open>[C, H, W]\<close>, read off its first channel and first row.
  A window of size \<open>k\<close> moved by \<open>s\<close> over \<open>n\<close> positions fits
  \<open>(n - k) div s + 1\<close> times (torch's output size without padding or dilation); torch
  raises a RuntimeError when the window is larger than the input.
\<close>

definition height :: "'a list list list \<Rightarrow> nat" where
  "height e = (case e of [] \<Rightarrow> 0 | m # _ \<Rightarrow> length m)"

definition width :: "'a list list list \<Rightarrow> nat" where
  "width e = (case e of [] \<Rightarrow> 0 | m # _ \<Rightarrow> (case m of [] \<Rightarrow> 0 | r # _ \<Rightarrow> length r))"

definition out_size :: "nat \<Rightarrow> nat \<Rightarrow> nat \<Rightarrow> nat" where
  "out_size n k s = (n - k) div s + 1"

definition conv2d_example ::
  "nat \<Rightarrow> nat \<Rightarrow> real list list list list \<Rightarrow> real list \<Rightarrow> real list list list \<Rightarrow> real list list list" where
  "conv2d_example k s W b e =
     map (\<lambda>oc.
       map (\<lambda>i.
         map (\<lambda>j.
           b ! oc +
           sum_list (map (\<lambda>c.
             sum_list (map (\<lambda>di.
               sum_list (map (\<lambda>dj.
                 W ! oc ! c ! di ! dj * e ! c ! (i * s + di) ! (j * s + dj))
               [0..<k]))
             [0..<k]))
           [0..<length e]))
         [0..<out_size (width e) k s])
       [0..<out_size (height e) k s])
     [0..<length W]"

definition conv_ok :: "nat \<Rightarrow> nat \<Rightarrow> nat \<Rightarrow> real list list list \<Rightarrow> bool" where
  "conv_ok cin k s e \<longleftrightarrow> length e = cin \<and> 0 < s \<and> k \<le> height e \<and> k \<le> width e"

text \<open>
  \<^verbatim>\<open>nn.Conv2d\<close> takes a batch \<open>[B, C, H, W]\<close> or one unbatched example \<open>[C, H, W]\<close>;
  a rank-2 input, a wrong channel count or an input smaller than the kernel raises.
\<close>

fun conv2d_fwd ::
  "nat \<Rightarrow> nat \<Rightarrow> nat \<Rightarrow> real list list list list \<Rightarrow> real list \<Rightarrow> tensor \<Rightarrow> error + tensor" where
  "conv2d_fwd cin k s W b (T2 x) = Inl RuntimeError"
| "conv2d_fwd cin k s W b (T3 e) =
     (if conv_ok cin k s e then Inr (T3 (conv2d_example k s W b e)) else Inl RuntimeError)"
| "conv2d_fwd cin k s W b (T4 x) =
     (if list_all (conv_ok cin k s) x then Inr (T4 (map (conv2d_example k s W b) x))
      else Inl RuntimeError)"

fun maximum :: "real list \<Rightarrow> real" where
  "maximum [] = 0"
| "maximum (x # xs) = foldl max x xs"

definition maxpool_plane :: "nat \<Rightarrow> nat \<Rightarrow> real list list \<Rightarrow> real list list" where
  "maxpool_plane k s m =
     map (\<lambda>i.
       map (\<lambda>j.
         maximum (concat (map (\<lambda>di. map (\<lambda>dj. m ! (i * s + di) ! (j * s + dj)) [0..<k]) [0..<k])))
       [0..<out_size (width [m]) k s])
     [0..<out_size (length m) k s]"

definition pool_ok :: "nat \<Rightarrow> nat \<Rightarrow> real list list list \<Rightarrow> bool" where
  "pool_ok k s e \<longleftrightarrow> 0 < k \<and> 0 < s \<and> k \<le> height e \<and> k \<le> width e"

fun maxpool2d_fwd :: "nat \<Rightarrow> nat \<Rightarrow> tensor \<Rightarrow> error + tensor" where
  "maxpool2d_fwd k s (T2 x) = Inl RuntimeError"
| "maxpool2d_fwd k s (T3 e) =
     (if pool_ok k s e then Inr (T3 (map (maxpool_plane k s) e)) else Inl RuntimeError)"
| "maxpool2d_fwd k s (T4 x) =
     (if list_all (pool_ok k s) x then Inr (T4 (map (map (maxpool_plane k s)) x))
      else Inl RuntimeError)"

subsection \<open>BatchNorm2d\<close>

text \<open>
  \<^verbatim>\<open>nn.BatchNorm2d\<close> with its default \<open>eps = 1e-5\<close> and \<open>momentum = 0.1\<close>. It takes rank 4 only
  (ValueError otherwise). In training mode it normalises with the statistics of the
  batch, raises a ValueError when a channel has exactly one value, and updates its
  running statistics; in inference mode it normalises with the running statistics and
  changes nothing.
\<close>

definition eps :: real where
  "eps = 1 / 100000"

definition momentum :: real where
  "momentum = 1 / 10"

definition channel_values :: "real list list list list \<Rightarrow> nat \<Rightarrow> real list" where
  "channel_values x c = concat (map (\<lambda>e. concat (e ! c)) x)"

definition mean :: "real list \<Rightarrow> real" where
  "mean v = sum_list v / real (length v)"

definition var_biased :: "real list \<Rightarrow> real" where
  "var_biased v = sum_list (map (\<lambda>a. (a - mean v)\<^sup>2) v) / real (length v)"

definition var_unbiased :: "real list \<Rightarrow> real" where
  "var_unbiased v = sum_list (map (\<lambda>a. (a - mean v)\<^sup>2) v) / (real (length v) - 1)"

definition bn_example ::
  "real list \<Rightarrow> real list \<Rightarrow> real list \<Rightarrow> real list \<Rightarrow> real list list list \<Rightarrow> real list list list" where
  "bn_example mu var gamma beta e =
     map (\<lambda>c. map (map (\<lambda>a. (a - mu ! c) / sqrt (var ! c + eps) * gamma ! c + beta ! c)) (e ! c))
       [0..<length e]"

definition values_per_channel :: "real list list list list \<Rightarrow> nat" where
  "values_per_channel x = (case x of [] \<Rightarrow> 0 | e # _ \<Rightarrow> length x * height e * width e)"

fun batchnorm2d_fwd ::
  "bool \<Rightarrow> nat \<Rightarrow> real list \<Rightarrow> real list \<Rightarrow> real list \<Rightarrow> real list \<Rightarrow> nat \<Rightarrow> tensor
   \<Rightarrow> error + (tensor \<times> layer)" where
  "batchnorm2d_fwd tr n gamma beta rm rv nbt (T2 x) = Inl ValueError"
| "batchnorm2d_fwd tr n gamma beta rm rv nbt (T3 x) = Inl ValueError"
| "batchnorm2d_fwd tr n gamma beta rm rv nbt (T4 x) =
     (if \<not> list_all (\<lambda>e. length e = n) x then Inl RuntimeError
      else if tr then
        (if values_per_channel x = 1 then Inl ValueError
         else
           (let mu = map (\<lambda>c. mean (channel_values x c)) [0..<n];
                var = map (\<lambda>c. var_biased (channel_values x c)) [0..<n];
                uvar = map (\<lambda>c. var_unbiased (channel_values x c)) [0..<n]
            in Inr (T4 (map (bn_example mu var gamma beta) x),
                    BatchNorm2d n gamma beta
                      (map2 (\<lambda>r m. (1 - momentum) * r + momentum * m) rm mu)
                      (map2 (\<lambda>r v. (1 - momentum) * r + momentum * v) rv uvar)
                      (nbt + 1))))
      else Inr (T4 (map (bn_example rm rv gamma beta) x), BatchNorm2d n gamma beta rm rv nbt))"

subsection \<open>Dropout\<close>

text \<open>
  \<^verbatim>\<open>nn.Dropout(p)\<close> in training mode draws one number per entry, zeroes the entry
  when the draw is below \<open>p\<close> and scales it by \<open>1 / (1 - p)\<close> otherwise. In inference
  mode it returns its input and leaves the generator alone.
\<close>

definition dropout_vec :: "real \<Rightarrow> generator \<Rightarrow> real list \<Rightarrow> real list \<times> generator" where
  "dropout_vec p g v =
     (case draws (length v) g of
        (us, g') \<Rightarrow> (map2 (\<lambda>a u. if u < p then 0 else a / (1 - p)) v us, g'))"

fun dropout_fwd :: "bool \<Rightarrow> real \<Rightarrow> generator \<Rightarrow> tensor \<Rightarrow> tensor \<times> generator" where
  "dropout_fwd False p g x = (x, g)"
| "dropout_fwd True p g (T2 x) =
     (case map_accum (dropout_vec p) g x of (y, g') \<Rightarrow> (T2 y, g'))"
| "dropout_fwd True p g (T3 x) =
     (case map_accum (map_accum (dropout_vec p)) g x of (y, g') \<Rightarrow> (T3 y, g'))"
| "dropout_fwd True p g (T4 x) =
     (case map_accum (map_accum (map_accum (dropout_vec p))) g x of (y, g') \<Rightarrow> (T4 y, g'))"

subsection \<open>Softmax over dimension 1\<close>

definition softmax :: "real list \<Rightarrow> real list" where
  "softmax v = map (\<lambda>a. exp a / sum_list (map exp v)) v"

text \<open>
  \<^verbatim>\<open>nn.functional.softmax(out, dim=1)\<close>. On rank 2 dimension 1 is the row of an
  example. On higher ranks the entries that differ in index 1 only are normalised
  together.
\<close>

definition fibre3 :: "real list list \<Rightarrow> nat \<Rightarrow> real list" where
  "fibre3 m j = map (\<lambda>r. r ! j) m"

definition fibre4 :: "real list list list \<Rightarrow> nat \<Rightarrow> nat \<Rightarrow> real list" where
  "fibre4 e i j = map (\<lambda>m. m ! i ! j) e"

fun softmax_dim1 :: "tensor \<Rightarrow> tensor" where
  "softmax_dim1 (T2 x) = T2 (map softmax x)"
| "softmax_dim1 (T3 x) =
     T3 (map (\<lambda>m. map (\<lambda>i. map (\<lambda>j. softmax (fibre3 m j) ! i) [0..<width [m]]) [0..<length m]) x)"
| "softmax_dim1 (T4 x) =
     T4 (map (\<lambda>e. map (\<lambda>c. map (\<lambda>i. map (\<lambda>j. softmax (fibre4 e i j) ! c)
                [0..<width e]) [0..<height e]) [0..<length e]) x)"

subsection \<open>Softmax in the arithmetic of the tensor's dtype\<close>

text \<open>
  torch computes softmax in the dtype of its argument, \<^verbatim>\<open>float32\<close> for the tensors of
  this program. Along the dimension it takes the largest entry, subtracts it from every
  entry, exponentiates, adds the exponentials up and scales each of them by the
  reciprocal of the sum; the result of every operation is rounded to the dtype.
  \<open>softmax_rounded rnd\<close> is that computation with the rounding of the dtype as the
  parameter \<open>rnd\<close>; without rounding it computes \<open>softmax\<close>.

  \<open>rne\<close> rounds to the nearest integer, a tie to the even one. \<open>float32\<close> rounds a
  real number to the nearest binary32 value, ties to the even significand: 24
  significant bits, the exponent of the leading bit at least \<open>- 126\<close>, so that below
  \<open>2 powr (- 126)\<close> the values are \<open>2 powr (- 149)\<close> apart. Infinities and NaN are
  outside the model, and the library's exponential is taken as correctly rounded.
\<close>

definition rne :: "real \<Rightarrow> int" where
  "rne x =
     (let f = \<lfloor>x\<rfloor>; d = x - of_int f
      in if d < 1 / 2 then f else if 1 / 2 < d then f + 1 else if even f then f else f + 1)"

definition float32 :: "real \<Rightarrow> real" where
  "float32 x =
     (if x = 0 then 0
      else let e = max \<lfloor>log 2 \<bar>x\<bar>\<rfloor> (- 126); u = 2 powr (of_int e - 23)
           in of_int (rne (x / u)) * u)"

definition softmax_rounded :: "(real \<Rightarrow> real) \<Rightarrow> real list \<Rightarrow> real list" where
  "softmax_rounded rnd v =
     (let m = maximum v;
          es = map (\<lambda>a. rnd (exp (rnd (a - m)))) v;
          r = rnd (1 / foldl (\<lambda>s e. rnd (s + e)) 0 es)
      in map (\<lambda>e. rnd (e * r)) es)"

fun softmax_dim1_rounded :: "(real \<Rightarrow> real) \<Rightarrow> tensor \<Rightarrow> tensor" where
  "softmax_dim1_rounded rnd (T2 x) = T2 (map (softmax_rounded rnd) x)"
| "softmax_dim1_rounded rnd (T3 x) =
     T3 (map (\<lambda>m. map (\<lambda>i. map (\<lambda>j. softmax_rounded rnd (fibre3 m j) ! i)
           [0..<width [m]]) [0..<length m]) x)"
| "softmax_dim1_rounded rnd (T4 x) =
     T4 (map (\<lambda>e. map (\<lambda>c. map (\<lambda>i. map (\<lambda>j. softmax_rounded rnd (fibre4 e i j) ! c)
                [0..<width e]) [0..<height e]) [0..<length e]) x)"

subsection \<open>\<^verbatim>\<open>nn.Sequential\<close>\<close>

text \<open>
  One layer applied in training (\<open>tr = True\<close>) or inference mode. The result is the
  output, the layer with its buffers as the call leaves them, and the generator. When a
  layer raises, the whole call raises: the result is the error alone.
\<close>

fun apply_layer :: "bool \<Rightarrow> generator \<Rightarrow> layer \<Rightarrow> tensor \<Rightarrow> error + (tensor \<times> layer \<times> generator)" where
  "apply_layer tr g Flatten x = Inr (flatten x, Flatten, g)"
| "apply_layer tr g (Linear n m W b) x =
     (case linear_fwd n W b x of Inl e \<Rightarrow> Inl e | Inr y \<Rightarrow> Inr (y, Linear n m W b, g))"
| "apply_layer tr g ReLU x = Inr (relu x, ReLU, g)"
| "apply_layer tr g (Conv2d cin cout k s W b) x =
     (case conv2d_fwd cin k s W b x of
        Inl e \<Rightarrow> Inl e
      | Inr y \<Rightarrow> Inr (y, Conv2d cin cout k s W b, g))"
| "apply_layer tr g (BatchNorm2d n gamma beta rm rv nbt) x =
     (case batchnorm2d_fwd tr n gamma beta rm rv nbt x of
        Inl e \<Rightarrow> Inl e
      | Inr (y, l) \<Rightarrow> Inr (y, l, g))"
| "apply_layer tr g (MaxPool2d k s) x =
     (case maxpool2d_fwd k s x of Inl e \<Rightarrow> Inl e | Inr y \<Rightarrow> Inr (y, MaxPool2d k s, g))"
| "apply_layer tr g (Dropout p) x =
     (case dropout_fwd tr p g x of (y, g') \<Rightarrow> Inr (y, Dropout p, g'))"

fun seq_forward ::
  "bool \<Rightarrow> generator \<Rightarrow> layer list \<Rightarrow> tensor \<Rightarrow> error + (tensor \<times> layer list \<times> generator)" where
  "seq_forward tr g [] x = Inr (x, [], g)"
| "seq_forward tr g (l # ls) x =
     (case apply_layer tr g l x of
        Inl e \<Rightarrow> Inl e
      | Inr (y, l', g') \<Rightarrow>
          (case seq_forward tr g' ls y of
             Inl e \<Rightarrow> Inl e
           | Inr (z, ls', g'') \<Rightarrow> Inr (z, l' # ls', g'')))"

section \<open>The classifiers\<close>

text \<open>
  A classifier object holds \<^verbatim>\<open>self.layers\<close> and the mode flag \<^verbatim>\<open>self.training\<close>
  (\<^verbatim>\<open>model.train()\<close> and \<^verbatim>\<open>model.eval()\<close> set the flag of the module and of every
  layer together, so one flag stands for all of them). The world around it holds what
  a forward pass reads and writes besides: autograd's switch (\<^verbatim>\<open>torch.is_grad_enabled()\<close>),
  the number of forward passes autograd has recorded for differentiation, the
  \<^verbatim>\<open>.grad\<close> buffers of the parameters, and the random generator.
\<close>

record net =
  layers :: "layer list"
  training :: bool

record world =
  model :: net
  grad_enabled :: bool
  recorded :: nat
  grads :: "real list list option"
  gen :: generator

text \<open>
  \<^verbatim>\<open>SimpleFCNet.forward\<close> and \<^verbatim>\<open>SimpleConvNet.forward\<close> are the same text: run the
  layer stack; return its output in training mode, its softmax over dimension 1
  otherwise.
\<close>

definition forward :: "world \<Rightarrow> tensor \<Rightarrow> error + (tensor \<times> world)" where
  "forward w x =
     (case seq_forward (training (model w)) (gen w) (layers (model w)) x of
        Inl e \<Rightarrow> Inl e
      | Inr (out, ls, g) \<Rightarrow>
          (let w' = w\<lparr>model := (model w)\<lparr>layers := ls\<rparr>, gen := g,
                        recorded := (if grad_enabled w then recorded w + 1 else recorded w)\<rparr>
           in if training (model w) then Inr (out, w') else Inr (softmax_dim1 out, w')))"

text \<open>
  The same forward pass with its last step, the softmax of inference mode, computed in
  the arithmetic of the dtype; the arithmetic inside the layers stays exact. Without
  rounding it is \<open>forward\<close>.
\<close>

definition forward_rounded :: "(real \<Rightarrow> real) \<Rightarrow> world \<Rightarrow> tensor \<Rightarrow> error + (tensor \<times> world)" where
  "forward_rounded rnd w x =
     (case seq_forward (training (model w)) (gen w) (layers (model w)) x of
        Inl e \<Rightarrow> Inl e
      | Inr (out, ls, g) \<Rightarrow>
          (let w' = w\<lparr>model := (model w)\<lparr>layers := ls\<rparr>, gen := g,
                        recorded := (if grad_enabled w then recorded w + 1 else recorded w)\<rparr>
           in if training (model w) then Inr (out, w')
              else Inr (softmax_dim1_rounded rnd out, w')))"

subsection \<open>Construction\<close>

text \<open>
  torch fills a new \<^verbatim>\<open>nn.Linear\<close> or \<^verbatim>\<open>nn.Conv2d\<close> with uniform draws from
  \<open>[-1 / sqrt fan_in, 1 / sqrt fan_in]\<close>, weight first, then bias; a new
  \<^verbatim>\<open>nn.BatchNorm2d\<close> has weight and running variance one, bias and running mean zero.
\<close>

definition uniform_vec :: "real \<Rightarrow> real \<Rightarrow> nat \<Rightarrow> generator \<Rightarrow> real list \<times> generator" where
  "uniform_vec lo hi n g =
     (case draws n g of (us, g') \<Rightarrow> (map (\<lambda>u. lo + (hi - lo) * u) us, g'))"

definition uniform_mat :: "real \<Rightarrow> real \<Rightarrow> nat \<Rightarrow> nat \<Rightarrow> generator \<Rightarrow> real list list \<times> generator" where
  "uniform_mat lo hi rows cols g = map_accum (\<lambda>g' _. uniform_vec lo hi cols g') g [0..<rows]"

definition new_Linear :: "nat \<Rightarrow> nat \<Rightarrow> generator \<Rightarrow> layer \<times> generator" where
  "new_Linear n m g =
     (let a = 1 / sqrt (real n) in
      case uniform_mat (- a) a m n g of
        (W, g1) \<Rightarrow> (case uniform_vec (- a) a m g1 of (b, g2) \<Rightarrow> (Linear n m W (Some b), g2)))"

definition new_Conv2d :: "nat \<Rightarrow> nat \<Rightarrow> nat \<Rightarrow> nat \<Rightarrow> generator \<Rightarrow> layer \<times> generator" where
  "new_Conv2d cin cout k s g =
     (let a = 1 / sqrt (real (cin * k * k)) in
      case map_accum (\<lambda>g1 _. map_accum (\<lambda>g2 _. uniform_mat (- a) a k k g2) g1 [0..<cin]) g [0..<cout] of
        (W, g1) \<Rightarrow> (case uniform_vec (- a) a cout g1 of (b, g2) \<Rightarrow> (Conv2d cin cout k s W b, g2)))"

definition new_BatchNorm2d :: "nat \<Rightarrow> layer" where
  "new_BatchNorm2d n = BatchNorm2d n (replicate n 1) (replicate n 0) (replicate n 0) (replicate n 1) 0"

text \<open>
  \<^verbatim>\<open>nn.init.xavier_uniform_\<close> draws every entry of an \<open>[out, in]\<close> weight from
  \<open>[-a, a]\<close> with \<open>a = sqrt (6 / (in + out))\<close>. \<^verbatim>\<open>reset_params\<close> visits the modules in
  layer order; on a \<^verbatim>\<open>nn.Linear\<close> it re-draws the weight and, when there is a bias, sets
  every entry of it to zero; it leaves every other module alone.
\<close>

definition xavier_uniform :: "nat \<Rightarrow> nat \<Rightarrow> generator \<Rightarrow> real list list \<times> generator" where
  "xavier_uniform n m g =
     (let a = sqrt (6 / (real n + real m)) in uniform_mat (- a) a m n g)"

fun reset_module :: "generator \<Rightarrow> layer \<Rightarrow> layer \<times> generator" where
  "reset_module g (Linear n m W b) =
     (case xavier_uniform n m g of
        (W', g') \<Rightarrow>
          (Linear n m W' (case b of None \<Rightarrow> None | Some bs \<Rightarrow> Some (map (\<lambda>_. 0) bs)), g'))"
| "reset_module g l = (l, g)"

definition reset_params :: "layer list \<Rightarrow> generator \<Rightarrow> layer list \<times> generator" where
  "reset_params ls g = map_accum reset_module g ls"

text \<open>
  \<^verbatim>\<open>SimpleFCNet.__init__(input_shape, num_classes)\<close>. The first \<^verbatim>\<open>nn.Linear\<close> is built
  with the literal 784; \<open>input_shape\<close> is not read. No statement of the constructor
  raises. A new module is in training mode. The shape is a pair of Python integers and
  the class count a natural number (torch refuses to build a layer of negative size).
\<close>

definition SimpleFCNet_init :: "int \<times> int \<Rightarrow> nat \<Rightarrow> generator \<Rightarrow> error + (net \<times> generator)" where
  "SimpleFCNet_init input_shape num_classes g =
     (case new_Linear 784 128 g of (l1, g1) \<Rightarrow>
      case new_Linear 128 64 g1 of (l2, g2) \<Rightarrow>
      case new_Linear 64 num_classes g2 of (l3, g3) \<Rightarrow>
      case reset_params [Flatten, l1, ReLU, l2, ReLU, l3] g3 of (ls, g4) \<Rightarrow>
        Inr (\<lparr>layers = ls, training = True\<rparr>, g4))"

text \<open>
  \<^verbatim>\<open>SimpleConvNet.__init__(input_shape, num_classes)\<close>. \<open>fc_dim\<close> is computed from
  \<open>input_shape\<close> with Python's floor division and then never read: the first
  \<^verbatim>\<open>nn.Linear\<close> is built with the literal 1152. No statement of the constructor raises.
\<close>

definition fc_dim :: "int \<times> int \<Rightarrow> int" where
  "fc_dim input_shape = 16 * (fst input_shape div 4 - 3) * (snd input_shape div 4 - 3)"

definition SimpleConvNet_init :: "int \<times> int \<Rightarrow> nat \<Rightarrow> generator \<Rightarrow> error + (net \<times> generator)" where
  "SimpleConvNet_init input_shape num_classes g =
     (let fc = fc_dim input_shape in
      case new_Conv2d 3 16 3 1 g of (c1, g1) \<Rightarrow>
      case new_Conv2d 16 32 3 1 g1 of (c2, g2) \<Rightarrow>
      case new_Linear 1152 256 g2 of (l1, g3) \<Rightarrow>
      case new_Linear 256 128 g3 of (l2, g4) \<Rightarrow>
      case new_Linear 128 num_classes g4 of (l3, g5) \<Rightarrow>
        Inr (\<lparr>layers =
               [c1, new_BatchNorm2d 16, ReLU, MaxPool2d 2 2,
                c2, new_BatchNorm2d 32, ReLU, MaxPool2d 2 2,
                Flatten,
                l1, ReLU, l2, ReLU, l3, Dropout (2 / 10)],
              training = True\<rparr>, g5))"

section \<open>The loops\<close>

text \<open>
  A data loader is the finite list of its batches, each an input tensor with the
  integer labels of its examples; \<^verbatim>\<open>len(loader)\<close> is the number of batches and
  \<^verbatim>\<open>len(loader.dataset)\<close> the number of samples of the dataset behind it. The loops
  call the model through its call operator, passed here as \<open>call\<close>; for the classifiers
  of this repository it is \<open>forward\<close>. The diagnostic line each loop prints is not
  modelled, and \<open>epoch\<close> is read by that line only.
\<close>

record loader =
  batches :: "(tensor \<times> int list) list"
  dataset_len :: nat

subsection \<open>\<^verbatim>\<open>test_model\<close>\<close>

text \<open>
  \<^verbatim>\<open>output.max(1, keepdim=True)[1]\<close>: the index of the first largest entry along
  dimension 1, listed in the order of the result's entries. A reduction over an
  empty dimension raises.
\<close>

fun argmax_from :: "nat \<Rightarrow> real \<Rightarrow> nat \<Rightarrow> real list \<Rightarrow> nat" where
  "argmax_from bi bv i [] = bi"
| "argmax_from bi bv i (x # xs) =
     (if bv < x then argmax_from i x (i + 1) xs else argmax_from bi bv (i + 1) xs)"

definition argmax :: "real list \<Rightarrow> nat" where
  "argmax v = (case v of [] \<Rightarrow> 0 | x # xs \<Rightarrow> argmax_from 0 x 1 xs)"

fun max_dim1 :: "tensor \<Rightarrow> error + nat list" where
  "max_dim1 (T2 x) =
     (if list_all (\<lambda>r. r \<noteq> []) x then Inr (map argmax x) else Inl IndexError)"
| "max_dim1 (T3 x) =
     (if list_all (\<lambda>m. m \<noteq> []) x
      then Inr (concat (map (\<lambda>m. map (\<lambda>j. argmax (fibre3 m j)) [0..<width [m]]) x))
      else Inl IndexError)"
| "max_dim1 (T4 x) =
     (if list_all (\<lambda>e. e \<noteq> []) x
      then Inr (concat (map (\<lambda>e. concat (map (\<lambda>i. map (\<lambda>j. argmax (fibre4 e i j))
                  [0..<width e]) [0..<height e])) x))
      else Inl IndexError)"

text \<open>
  \<^verbatim>\<open>pred.eq(target.view_as(pred)).sum().item()\<close>: \<open>view_as\<close> raises unless the labels are
  as many as the predictions; the sum counts the positions where both agree.
\<close>

definition count_correct :: "tensor \<Rightarrow> int list \<Rightarrow> error + nat" where
  "count_correct output target =
     (case max_dim1 output of
        Inl e \<Rightarrow> Inl e
      | Inr pred \<Rightarrow>
          if length target \<noteq> length pred then Inl RuntimeError
          else Inr (length (filter (\<lambda>(p, t). int p = t) (zip pred target))))"

fun test_loop ::
  "(world \<Rightarrow> tensor \<Rightarrow> error + (tensor \<times> world)) \<Rightarrow> world \<Rightarrow> (tensor \<times> int list) list \<Rightarrow> nat
   \<Rightarrow> error + (nat \<times> world)" where
  "test_loop call w [] correct = Inr (correct, w)"
| "test_loop call w ((input, target) # bs) correct =
     (case call w input of
        Inl e \<Rightarrow> Inl e
      | Inr (output, w') \<Rightarrow>
          (case count_correct output target of
             Inl e \<Rightarrow> Inl e
           | Inr n \<Rightarrow> test_loop call w' bs (correct + n)))"

text \<open>
  \<^verbatim>\<open>model.eval()\<close>, then the loop inside \<^verbatim>\<open>with torch.no_grad()\<close> (which switches
  autograd off and restores the switch on leaving), then Python's true division by
  \<^verbatim>\<open>len(test_loader.dataset)\<close>, which raises ZeroDivisionError on zero.
\<close>

definition test_model ::
  "(world \<Rightarrow> tensor \<Rightarrow> error + (tensor \<times> world)) \<Rightarrow> world \<Rightarrow> loader \<Rightarrow> int
   \<Rightarrow> error + (real \<times> world)" where
  "test_model call w test_loader epoch =
     (let w1 = w\<lparr>model := (model w)\<lparr>training := False\<rparr>\<rparr>;
          w2 = w1\<lparr>grad_enabled := False\<rparr>
      in case test_loop call w2 (batches test_loader) 0 of
           Inl e \<Rightarrow> Inl e
         | Inr (correct, w3) \<Rightarrow>
             (let w4 = w3\<lparr>grad_enabled := grad_enabled w1\<rparr>
              in if dataset_len test_loader = 0 then Inl ZeroDivisionError
                 else Inr (real correct / real (dataset_len test_loader), w4)))"

subsection \<open>\<^verbatim>\<open>train_model\<close>\<close>

text \<open>
  The collaborators of the training loop: the model's call operator, the loss function
  (\<^verbatim>\<open>criterion(outputs, target)\<close> with \<^verbatim>\<open>loss.item()\<close> its value), autograd's
  \<^verbatim>\<open>loss.backward()\<close>, and the optimizer's \<^verbatim>\<open>zero_grad()\<close> and \<^verbatim>\<open>step()\<close>. The
  optimizer keeps a state of its own, of type \<open>'o\<close>.
\<close>

record 'o train_ops =
  call_op :: "world \<Rightarrow> tensor \<Rightarrow> error + (tensor \<times> world)"
  zero_grad :: "world \<times> 'o \<Rightarrow> world \<times> 'o"
  criterion :: "tensor \<Rightarrow> int list \<Rightarrow> error + real"
  backward :: "world \<Rightarrow> tensor \<Rightarrow> int list \<Rightarrow> error + world"
  step :: "world \<times> 'o \<Rightarrow> world \<times> 'o"

fun train_loop ::
  "'o train_ops \<Rightarrow> world \<times> 'o \<Rightarrow> (tensor \<times> int list) list \<Rightarrow> real
   \<Rightarrow> error + (real \<times> (world \<times> 'o))" where
  "train_loop ops s [] train_loss = Inr (train_loss, s)"
| "train_loop ops s ((input, target) # bs) train_loss =
     (case zero_grad ops s of
        (w1, o1) \<Rightarrow>
          (case call_op ops w1 input of
             Inl e \<Rightarrow> Inl e
           | Inr (outputs, w2) \<Rightarrow>
               (case criterion ops outputs target of
                  Inl e \<Rightarrow> Inl e
                | Inr loss \<Rightarrow>
                    (case backward ops w2 outputs target of
                       Inl e \<Rightarrow> Inl e
                     | Inr w3 \<Rightarrow> train_loop ops (step ops (w3, o1)) bs (train_loss + loss)))))"

text \<open>
  \<^verbatim>\<open>model.train()\<close>, the loop from \<^verbatim>\<open>train_loss = 0.0\<close>, then
  \<^verbatim>\<open>train_loss /= len(train_loader)\<close>, which raises ZeroDivisionError on zero.
\<close>

definition train_model ::
  "'o train_ops \<Rightarrow> world \<times> 'o \<Rightarrow> loader \<Rightarrow> int \<Rightarrow> error + (real \<times> (world \<times> 'o))" where
  "train_model ops s train_loader epoch =
     (let w1 = (fst s)\<lparr>model := (model (fst s))\<lparr>training := True\<rparr>\<rparr>
      in case train_loop ops (w1, snd s) (batches train_loader) 0 of
           Inl e \<Rightarrow> Inl e
         | Inr (train_loss, s') \<Rightarrow>
             if length (batches train_loader) = 0 then Inl ZeroDivisionError
             else Inr (train_loss / real (length (batches train_loader)), s'))"

section \<open>Notions the properties are stated with\<close>

text \<open>
  Shapes of nested lists; the input width of the first dense layer of a stack; the
  spatial size left by convolution (3, stride 1), pooling (2, stride 2), convolution,
  pooling; and the flattened width of the 32 channels the features end with.
\<close>

definition shape3 :: "nat \<Rightarrow> nat \<Rightarrow> nat \<Rightarrow> real list list list \<Rightarrow> bool" where
  "shape3 c h w e \<longleftrightarrow>
     length e = c \<and> list_all (\<lambda>m. length m = h \<and> list_all (\<lambda>r. length r = w) m) e"

fun has_shape :: "tensor \<Rightarrow> nat list \<Rightarrow> bool" where
  "has_shape (T2 x) [b, n] \<longleftrightarrow> length x = b \<and> list_all (\<lambda>r. length r = n) x"
| "has_shape (T3 x) [b, h, w] \<longleftrightarrow>
     length x = b \<and> list_all (\<lambda>m. length m = h \<and> list_all (\<lambda>r. length r = w) m) x"
| "has_shape (T4 x) [b, c, h, w] \<longleftrightarrow> length x = b \<and> list_all (shape3 c h w) x"
| "has_shape t sh \<longleftrightarrow> False"

fun first_linear_in :: "layer list \<Rightarrow> nat option" where
  "first_linear_in [] = None"
| "first_linear_in (Linear n m W b # ls) = Some n"
| "first_linear_in (l # ls) = first_linear_in ls"

definition reduced :: "nat \<Rightarrow> nat" where
  "reduced n = out_size (out_size (out_size (out_size n 3 1) 2 2) 3 1) 2 2"

definition flat_features :: "nat \<times> nat \<Rightarrow> nat" where
  "flat_features hw = 32 * reduced (fst hw) * reduced (snd hw)"

text \<open>
  The per-batch losses of one training epoch and the per-batch counts of correct
  predictions of one evaluation epoch, collected in lists: what the loops' running
  sums are compared with.
\<close>

fun epoch_losses ::
  "'o train_ops \<Rightarrow> world \<times> 'o \<Rightarrow> (tensor \<times> int list) list \<Rightarrow> error + (real list \<times> (world \<times> 'o))" where
  "epoch_losses ops s [] = Inr ([], s)"
| "epoch_losses ops s ((input, target) # bs) =
     (case zero_grad ops s of
        (w1, o1) \<Rightarrow>
          (case call_op ops w1 input of
             Inl e \<Rightarrow> Inl e
           | Inr (outputs, w2) \<Rightarrow>
               (case criterion ops outputs target of
                  Inl e \<Rightarrow> Inl e
                | Inr loss \<Rightarrow>
                    (case backward ops w2 outputs target of
                       Inl e \<Rightarrow> Inl e
                     | Inr w3 \<Rightarrow>
                         (case epoch_losses ops (step ops (w3, o1)) bs of
                            Inl e \<Rightarrow> Inl e
                          | Inr (ls, s') \<Rightarrow> Inr (loss # ls, s'))))))"

fun epoch_correct ::
  "(world \<Rightarrow> tensor \<Rightarrow> error + (tensor \<times> world)) \<Rightarrow> world \<Rightarrow> (tensor \<times> int list) list
   \<Rightarrow> error + (nat list \<times> world)" where
  "epoch_correct call w [] = Inr ([], w)"
| "epoch_correct call w ((input, target) # bs) =
     (case call w input of
        Inl e \<Rightarrow> Inl e
      | Inr (output, w') \<Rightarrow>
          (case count_correct output target of
             Inl e \<Rightarrow> Inl e
           | Inr n \<Rightarrow>
               (case epoch_correct call w' bs of
                  Inl e \<Rightarrow> Inl e
                | Inr (ns, w'') \<Rightarrow> Inr (n # ns, w''))))"

definition samples_seen :: "loader \<Rightarrow> nat" where
  "samples_seen l = sum_list (map (\<lambda>b. length (snd b)) (batches l))"

text \<open>
  A classifier that differs from \<open>forward\<close> in one respect: it returns the output of
  the layer stack in inference mode too. It is not in the program; the evaluation
  loop run with it is compared with the evaluation loop run with \<open>forward\<close>.
\<close>

definition forward_logits :: "world \<Rightarrow> tensor \<Rightarrow> error + (tensor \<times> world)" where
  "forward_logits w x =
     (case seq_forward (training (model w)) (gen w) (layers (model w)) x of
        Inl e \<Rightarrow> Inl e
      | Inr (out, ls, g) \<Rightarrow>
          Inr (out, w\<lparr>model := (model w)\<lparr>layers := ls\<rparr>, gen := g,
                      recorded := (if grad_enabled w then recorded w + 1 else recorded w)\<rparr>))"

text \<open>
  A score vector on which softmax, computed with the rounding \<open>rnd\<close>, gives the
  probability of the first largest score to no entry whose score is another.
\<close>

definition no_collision :: "(real \<Rightarrow> real) \<Rightarrow> real list \<Rightarrow> bool" where
  "no_collision rnd v \<longleftrightarrow>
     (\<forall>i<length v. softmax_rounded rnd v ! i = softmax_rounded rnd v ! argmax v
        \<longrightarrow> v ! i = v ! argmax v)"

text \<open>
  Concrete inputs: a generator whose every draw is one half, the world of a freshly
  started interpreter around a classifier, and an all-zero image.
\<close>

definition g0 :: generator where
  "g0 = (\<lambda>_. 1 / 2)"

definition fresh_world :: "net \<Rightarrow> generator \<Rightarrow> world" where
  "fresh_world n g = \<lparr>model = n, grad_enabled = True, recorded = 0, grads = None, gen = g\<rparr>"

definition black :: "nat \<Rightarrow> nat \<Rightarrow> real list list" where
  "black h w = replicate h (replicate w 0)"

text \<open>
  \<^verbatim>\<open>model.train()\<close> on the state the training loop starts from, and stand-ins for the
  collaborators of the loops where a concrete run is needed: a loss that is the sum of
  the labels, a backward pass that fills the gradient buffers, an optimizer without
  state, and a classifier that only flattens.
\<close>

definition train_mode :: "world \<times> 'o \<Rightarrow> world \<times> 'o" where
  "train_mode s = ((fst s)\<lparr>model := (model (fst s))\<lparr>training := True\<rparr>\<rparr>, snd s)"

definition demo_criterion :: "tensor \<Rightarrow> int list \<Rightarrow> error + real" where
  "demo_criterion outputs target = Inr (real_of_int (sum_list target))"

definition demo_backward :: "world \<Rightarrow> tensor \<Rightarrow> int list \<Rightarrow> error + world" where
  "demo_backward w outputs target = Inr (w\<lparr>grads := Some []\<rparr>)"

definition demo_ops :: "unit train_ops" where
  "demo_ops = \<lparr>call_op = forward, zero_grad = id, criterion = demo_criterion,
                backward = demo_backward, step = id\<rparr>"

definition tiny_net :: net where
  "tiny_net = \<lparr>layers = [Flatten], training = False\<rparr>"

text \<open>
  The world as the evaluation loop sets it up before its first batch (\<^verbatim>\<open>model.eval()\<close>
  inside \<^verbatim>\<open>torch.no_grad()\<close>), and three loaders: two batches of one two-class example
  each over a dataset of two samples; no batch over an empty dataset; and a sampler
  that draws the one sample of its dataset twice.
\<close>

definition eval_nograd :: "world \<Rightarrow> world" where
  "eval_nograd w = w\<lparr>model := (model w)\<lparr>training := False\<rparr>, grad_enabled := False\<rparr>"

definition demo_loader :: loader where
  "demo_loader = \<lparr>batches = [(T3 [[[2], [5]]], [1]), (T3 [[[3], [1]]], [1])], dataset_len = 2\<rparr>"

definition empty_loader :: loader where
  "empty_loader = \<lparr>batches = [], dataset_len = 0\<rparr>"

definition resampling_loader :: loader where
  "resampling_loader = \<lparr>batches = [(T3 [[[2], [5]]], [1]), (T3 [[[2], [5]]], [1])], dataset_len = 1\<rparr>"

text \<open>
  Two more loaders: one batch of two three-class examples in which the largest score
  occurs twice, labelled with the first place it occurs at; and one batch of one
  two-class example whose scores, 0 and \<open>1 / 2 ^ 30\<close>, differ by less than float32
  resolves next to 1, labelled with the larger.
\<close>

definition tied_loader :: loader where
  "tied_loader = \<lparr>batches = [(T2 [[1, 3, 3], [3, 3, 1]], [1, 0])], dataset_len = 2\<rparr>"

definition close_loader :: loader where
  "close_loader = \<lparr>batches = [(T2 [[0, 1 / 2 ^ 30]], [1])], dataset_len = 1\<rparr>"

text \<open>
  A classifier whose stack ends in dropout, built in training mode, and a second
  generator, whose every draw is zero.
\<close>

definition drop_net :: net where
  "drop_net = \<lparr>layers = [Flatten, Dropout (2 / 10)], training = True\<rparr>"

definition g1 :: generator where
  "g1 = (\<lambda>_. 0)"

text \<open>
  A third generator, whose draws rise from 0 towards 1 and are all different.
\<close>

definition ramp :: generator where
  "ramp = (\<lambda>i. real i / (real i + 1))"

text \<open>
  The generator after \<open>n\<close> draws; the bound of Xavier initialisation for an
  \<open>[m, n]\<close> weight; a matrix of given size; a matrix with every entry bounded by
  \<open>a\<close>; and the number of draws torch's own initialisation of the three dense layers
  of \<^verbatim>\<open>SimpleFCNet\<close> takes before \<^verbatim>\<open>reset_params\<close> runs.
\<close>

definition advance :: "nat \<Rightarrow> generator \<Rightarrow> generator" where
  "advance n g = (\<lambda>i. g (i + n))"

definition xavier_bound :: "nat \<Rightarrow> nat \<Rightarrow> real" where
  "xavier_bound n m = sqrt (6 / (real n + real m))"

definition is_matrix :: "nat \<Rightarrow> nat \<Rightarrow> real list list \<Rightarrow> bool" where
  "is_matrix rows cols W \<longleftrightarrow> length W = rows \<and> list_all (\<lambda>r. length r = cols) W"

definition entries_within :: "real \<Rightarrow> real list list \<Rightarrow> bool" where
  "entries_within a W \<longleftrightarrow> list_all (list_all (\<lambda>v. - a \<le> v \<and> v \<le> a)) W"

definition default_draws :: "nat \<Rightarrow> nat" where
  "default_draws nc = (128 * 784 + 128) + (64 * 128 + 64) + (nc * 64 + nc)"

text \<open>
  The layer stacks that have the architecture of \<^verbatim>\<open>SimpleFCNet\<close> with \<open>nc\<close> classes,
  whatever the values of the parameters (training changes the values, not the sizes),
  and the classifier \<^verbatim>\<open>SimpleFCNet(input_shape, nc)\<close> as built from the generator
  \<open>g0\<close>.
\<close>

definition is_SimpleFCNet :: "nat \<Rightarrow> layer list \<Rightarrow> bool" where
  "is_SimpleFCNet nc ls \<longleftrightarrow>
     (\<exists>W1 b1 W2 b2 W3 b3.
        ls = [Flatten, Linear 784 128 W1 (Some b1), ReLU, Linear 128 64 W2 (Some b2), ReLU,
              Linear 64 nc W3 (Some b3)] \<and>
        length W1 = 128 \<and> length b1 = 128 \<and> length W2 = 64 \<and> length b2 = 64 \<and>
        length W3 = nc \<and> length b3 = nc)"

definition fc_net :: "int \<times> int \<Rightarrow> nat \<Rightarrow> net" where
  "fc_net input_shape nc =
     (case SimpleFCNet_init input_shape nc g0 of Inr (n, g) \<Rightarrow> n | Inl e \<Rightarrow> tiny_net)"

text \<open>
  The layer stacks that have the architecture of \<^verbatim>\<open>SimpleConvNet\<close> with \<open>nc\<close>
  classes, whatever the values of the parameters and buffers; the classifier
  \<^verbatim>\<open>SimpleConvNet(input_shape, nc)\<close> as built from the generator \<open>g0\<close>; and an
  all-zero image of three channels.
\<close>

definition is_SimpleConvNet :: "nat \<Rightarrow> layer list \<Rightarrow> bool" where
  "is_SimpleConvNet nc ls \<longleftrightarrow>
     (\<exists>W1 b1 ga1 be1 rm1 rv1 n1 W2 b2 ga2 be2 rm2 rv2 n2 W3 b3 W4 b4 W5 b5.
        ls = [Conv2d 3 16 3 1 W1 b1, BatchNorm2d 16 ga1 be1 rm1 rv1 n1, ReLU, MaxPool2d 2 2,
              Conv2d 16 32 3 1 W2 b2, BatchNorm2d 32 ga2 be2 rm2 rv2 n2, ReLU, MaxPool2d 2 2,
              Flatten,
              Linear 1152 256 W3 (Some b3), ReLU, Linear 256 128 W4 (Some b4), ReLU,
              Linear 128 nc W5 (Some b5), Dropout (2 / 10)] \<and>
        length W1 = 16 \<and> length W2 = 32 \<and> length W3 = 256 \<and> length b3 = 256 \<and>
        length W4 = 128 \<and> length b4 = 128 \<and> length W5 = nc \<and> length b5 = nc)"

definition conv_net :: "int \<times> int \<Rightarrow> nat \<Rightarrow> net" where
  "conv_net input_shape nc =
     (case SimpleConvNet_init input_shape nc g0 of Inr (n, g) \<Rightarrow> n | Inl e \<Rightarrow> tiny_net)"

definition rgb_black :: "nat \<Rightarrow> nat \<Rightarrow> real list list list" where
  "rgb_black h w = replicate 3 (black h w)"

section \<open>Auxiliary facts\<close>

lemma draws_length: "length (fst (draws n g)) = n"
  by (simp add: draws_def)

lemma map_accum_length: "length (fst (map_accum f s xs)) = length xs"
proof (induction xs arbitrary: s)
  case Nil
  show ?case by simp
next
  case (Cons x xs)
  obtain y s' where a: "f s x = (y, s')" by (cases "f s x")
  obtain ys s'' where b: "map_accum f s' xs = (ys, s'')" by (cases "map_accum f s' xs")
  from Cons [of s'] b have "length ys = length xs" by simp
  with a b show ?case by simp
qed

lemma new_Linear_ex: "\<exists>W b g'. new_Linear n m g = (Linear n m W (Some b), g')"
  by (simp add: new_Linear_def Let_def split: prod.splits)

lemma new_Conv2d_ex:
  "\<exists>W b g'. new_Conv2d cin cout k s g = (Conv2d cin cout k s W b, g') \<and> length W = cout"
proof -
  define a where "a = 1 / sqrt (real (cin * k * k))"
  define f where
    "f = (\<lambda>g1 (_::nat). map_accum (\<lambda>g2 (_::nat). uniform_mat (- a) a k k g2) g1 [0..<cin])"
  have "length (fst (map_accum f g [0..<cout])) = cout"
    by (simp add: map_accum_length)
  then show ?thesis
    unfolding new_Conv2d_def Let_def a_def [symmetric] f_def [symmetric]
    by (auto split: prod.splits)
qed

lemma SimpleConvNet_init_layers:
  "\<exists>W1 b1 W2 b2 W3 b3 W4 b4 W5 b5 g'.
     SimpleConvNet_init input_shape num_classes g =
       Inr (\<lparr>layers =
              [Conv2d 3 16 3 1 W1 b1, new_BatchNorm2d 16, ReLU, MaxPool2d 2 2,
               Conv2d 16 32 3 1 W2 b2, new_BatchNorm2d 32, ReLU, MaxPool2d 2 2,
               Flatten,
               Linear 1152 256 W3 (Some b3), ReLU, Linear 256 128 W4 (Some b4), ReLU,
               Linear 128 num_classes W5 (Some b5), Dropout (2 / 10)],
             training = True\<rparr>, g') \<and>
     length W1 = 16 \<and> length W2 = 32"
proof -
  obtain W1 b1 g1 where c1: "new_Conv2d 3 16 3 1 g = (Conv2d 3 16 3 1 W1 b1, g1)" "length W1 = 16"
    using new_Conv2d_ex by blast
  obtain W2 b2 g2 where c2: "new_Conv2d 16 32 3 1 g1 = (Conv2d 16 32 3 1 W2 b2, g2)" "length W2 = 32"
    using new_Conv2d_ex by blast
  obtain W3 b3 g3 where l1: "new_Linear 1152 256 g2 = (Linear 1152 256 W3 (Some b3), g3)"
    using new_Linear_ex by blast
  obtain W4 b4 g4 where l2: "new_Linear 256 128 g3 = (Linear 256 128 W4 (Some b4), g4)"
    using new_Linear_ex by blast
  obtain W5 b5 g5 where
    l3: "new_Linear 128 num_classes g4 = (Linear 128 num_classes W5 (Some b5), g5)"
    using new_Linear_ex by blast
  have "SimpleConvNet_init input_shape num_classes g =
       Inr (\<lparr>layers =
              [Conv2d 3 16 3 1 W1 b1, new_BatchNorm2d 16, ReLU, MaxPool2d 2 2,
               Conv2d 16 32 3 1 W2 b2, new_BatchNorm2d 32, ReLU, MaxPool2d 2 2,
               Flatten,
               Linear 1152 256 W3 (Some b3), ReLU, Linear 256 128 W4 (Some b4), ReLU,
               Linear 128 num_classes W5 (Some b5), Dropout (2 / 10)],
             training = True\<rparr>, g5)"
    by (simp add: SimpleConvNet_init_def c1 c2 l1 l2 l3 del: One_nat_def)
  with c1(2) c2(2) show ?thesis by blast
qed

lemma sum_list_divide: "sum_list (map (\<lambda>a. f a / c) v) = sum_list (map f v) / (c::real)"
  by (induction v) (simp_all add: add_divide_distrib)

section \<open>Construction of the convolutional classifier\<close>

text \<open>
  Claim C1, as the code has it. For every input shape, class count and generator,
  \<open>SimpleConvNet_init\<close> returns a classifier: it raises nothing, a ConfigurationError
  included, whatever \<open>fc_dim\<close> comes to, and the first dense layer it builds has input
  width 1152.
\<close>

theorem SimpleConvNet_init_never_fails:
  "\<exists>n g'. SimpleConvNet_init input_shape num_classes g = Inr (n, g') \<and>
           first_linear_in (layers n) = Some 1152"
proof -
  obtain ls g' where "SimpleConvNet_init input_shape num_classes g =
      Inr (\<lparr>layers = ls, training = True\<rparr>, g')" "first_linear_in ls = Some 1152"
    using SimpleConvNet_init_layers [of input_shape num_classes g]
    by (auto simp: new_BatchNorm2d_def)
  then show ?thesis by simp
qed

theorem SimpleConvNet_init_never_fails_witness:
  "\<exists>n g'. SimpleConvNet_init (28, 28) 100 g0 = Inr (n, g') \<and>
           first_linear_in (layers n) = Some 1152"
  using SimpleConvNet_init_never_fails [of "(28, 28)" 100 g0] by simp

text \<open>
  The claim as stated fails: at input shape 28 by 28 the size the constructor computes
  (256) and the flattened width of the features (800) both differ from 1152, and at
  the default 32 by 32 the computed size (400) differs from 1152 too, yet neither
  construction ends in a ConfigurationError.
\<close>

theorem SimpleConvNet_init_mismatch_succeeds:
  "fc_dim (28, 28) = 256 \<and> flat_features (28, 28) = 800 \<and>
   fc_dim (32, 32) = 400 \<and> flat_features (32, 32) = 1152 \<and>
   SimpleConvNet_init (28, 28) 100 g0 \<noteq> Inl ConfigurationError \<and>
   SimpleConvNet_init (32, 32) 100 g0 \<noteq> Inl ConfigurationError"
proof -
  have a: "SimpleConvNet_init (28, 28) 100 g0 \<noteq> Inl ConfigurationError"
    using SimpleConvNet_init_layers [of "(28, 28)" 100 g0] by auto
  have b: "SimpleConvNet_init (32, 32) 100 g0 \<noteq> Inl ConfigurationError"
    using SimpleConvNet_init_layers [of "(32, 32)" 100 g0] by auto
  show ?thesis using a b
    by (simp add: fc_dim_def flat_features_def reduced_def out_size_def)
qed

section \<open>The training loop\<close>

lemma train_loop_epoch_losses:
  "train_loop ops s bs acc =
     (case epoch_losses ops s bs of
        Inl e \<Rightarrow> Inl e
      | Inr (ls, s') \<Rightarrow> Inr (acc + sum_list ls, s'))"
proof (induction bs arbitrary: s acc)
  case Nil
  show ?case by simp
next
  case (Cons b bs)
  obtain input target where b: "b = (input, target)" by (cases b)
  show ?case unfolding b
    by (simp add: Cons split: prod.splits sum.splits)
qed

lemma epoch_losses_length:
  "epoch_losses ops s bs = Inr (ls, s') \<Longrightarrow> length ls = length bs"
proof (induction bs arbitrary: s ls s')
  case Nil
  then show ?case by simp
next
  case (Cons b bs)
  obtain input target where b: "b = (input, target)" by (cases b)
  from Cons.prems show ?case unfolding b
    by (auto split: prod.splits sum.splits dest: Cons.IH)
qed

lemma demo_run:
  "epoch_losses demo_ops (train_mode (fresh_world tiny_net g0, ()))
     [(T3 [black 1 1], [1]), (T3 [black 1 1], [3])] =
   Inr ([1, 3],
        (fresh_world tiny_net g0)
          \<lparr>model := tiny_net\<lparr>training := True\<rparr>, recorded := 2, grads := Some []\<rparr>, ())"
  by (simp add: demo_ops_def train_mode_def fresh_world_def tiny_net_def forward_def
      demo_criterion_def demo_backward_def black_def)

text \<open>
  Claim C3, as the code has it. One call of \<open>train_model\<close> puts the model in training
  mode and runs the batches in order. If a batch raises, the call raises. Otherwise,
  if the loader has no batch, the call raises ZeroDivisionError; if it has at least
  one, the call returns the sum of the per-batch losses divided by their number, which
  is the number of batches and not of samples. With two batches whose losses are \<open>a\<close>
  and \<open>b\<close> it returns \<open>(a + b) / 2\<close>.
\<close>

theorem train_model_mean_loss:
  "train_model ops s l epoch =
     (case epoch_losses ops (train_mode s) (batches l) of
        Inl e \<Rightarrow> Inl e
      | Inr (ls, s') \<Rightarrow>
          if batches l = [] then Inl ZeroDivisionError
          else Inr (sum_list ls / real (length ls), s')) \<and>
   (epoch_losses ops (train_mode s) (batches l) = Inr ([a, b], s'') \<longrightarrow>
      length (batches l) = 2 \<and> train_model ops s l epoch = Inr ((a + b) / 2, s''))"
proof -
  have eq: "train_model ops s l epoch =
     (case epoch_losses ops (train_mode s) (batches l) of
        Inl e \<Rightarrow> Inl e
      | Inr (ls, s') \<Rightarrow>
          if batches l = [] then Inl ZeroDivisionError
          else Inr (sum_list ls / real (length ls), s'))"
    by (auto simp: train_model_def train_mode_def Let_def train_loop_epoch_losses
        split: sum.splits prod.splits dest: epoch_losses_length)
  moreover have "length (batches l) = 2 \<and> train_model ops s l epoch = Inr ((a + b) / 2, s'')"
    if h: "epoch_losses ops (train_mode s) (batches l) = Inr ([a, b], s'')"
  proof -
    from epoch_losses_length [OF h] have len: "length (batches l) = 2" by simp
    then have "batches l \<noteq> []" by auto
    with eq h len show ?thesis by simp
  qed
  ultimately show ?thesis by blast
qed

text \<open>
  Two batches of one example each, with losses 1 and 3: the epoch loss is 2, the
  model is left in training mode, two forward passes were recorded by autograd.
\<close>

theorem train_model_mean_loss_witness:
  "train_model demo_ops (fresh_world tiny_net g0, ())
     \<lparr>batches = [(T3 [black 1 1], [1]), (T3 [black 1 1], [3])], dataset_len = 2\<rparr> 0 =
   Inr (2,
        (fresh_world tiny_net g0)
          \<lparr>model := tiny_net\<lparr>training := True\<rparr>, recorded := 2, grads := Some []\<rparr>, ())"
  using train_model_mean_loss [of demo_ops "(fresh_world tiny_net g0, ())"
      "\<lparr>batches = [(T3 [black 1 1], [1]), (T3 [black 1 1], [3])], dataset_len = 2\<rparr>" 0 1 3
      "((fresh_world tiny_net g0)
          \<lparr>model := tiny_net\<lparr>training := True\<rparr>, recorded := 2, grads := Some []\<rparr>, ())"]
    demo_run
  by simp

text \<open>
  The claim as stated fails on a data source without batches: the call raises
  ZeroDivisionError and returns no mean.
\<close>

theorem train_model_empty_loader:
  "train_model demo_ops (fresh_world tiny_net g0, ()) \<lparr>batches = [], dataset_len = 0\<rparr> 0 =
   Inl ZeroDivisionError"
  by (simp add: train_model_def)

section \<open>The evaluation loop\<close>

lemma test_loop_epoch_correct:
  "test_loop call w bs acc =
     (case epoch_correct call w bs of
        Inl e \<Rightarrow> Inl e
      | Inr (ns, w') \<Rightarrow> Inr (acc + sum_list ns, w'))"
proof (induction bs arbitrary: w acc)
  case Nil
  show ?case by simp
next
  case (Cons b bs)
  obtain input target where b: "b = (input, target)" by (cases b)
  show ?case unfolding b
    by (simp add: Cons split: prod.splits sum.splits)
qed

lemma count_correct_le: "count_correct out t = Inr n \<Longrightarrow> n \<le> length t"
proof -
  assume "count_correct out t = Inr n"
  then obtain pred where "length t = length pred"
    "n = length (filter (\<lambda>(p, t). int p = t) (zip pred t))"
    by (auto simp: count_correct_def split: sum.splits if_splits)
  then show ?thesis
    by (metis length_filter_le length_zip min.idem)
qed

lemma epoch_correct_bound:
  "epoch_correct call w bs = Inr (ns, w') \<Longrightarrow>
   sum_list ns \<le> sum_list (map (\<lambda>b. length (snd b)) bs)"
proof (induction bs arbitrary: w ns w')
  case Nil
  then show ?case by simp
next
  case (Cons b bs)
  obtain input target where b: "b = (input, target)" by (cases b)
  from Cons.prems obtain out w1 n ns1 where
    c: "count_correct out target = Inr n" and
    e: "epoch_correct call w1 bs = Inr (ns1, w')" and
    ns: "ns = n # ns1"
    unfolding b by (auto split: prod.splits sum.splits)
  from Cons.IH [OF e] count_correct_le [OF c] show ?case
    unfolding b ns by simp
qed

lemma argmax_from_max:
  "bi < length pre \<Longrightarrow> bv = pre ! bi \<Longrightarrow> \<forall>a\<in>set pre. a \<le> bv \<Longrightarrow> i = length pre \<Longrightarrow>
   argmax_from bi bv i xs < length (pre @ xs) \<and>
   (\<forall>a\<in>set (pre @ xs). a \<le> (pre @ xs) ! argmax_from bi bv i xs)"
proof (induction xs arbitrary: pre bi bv i)
  case Nil
  then show ?case by simp
next
  case (Cons x xs)
  show ?case
  proof (cases "bv < x")
    case True
    have "argmax_from i x (i + 1) xs < length ((pre @ [x]) @ xs) \<and>
      (\<forall>a\<in>set ((pre @ [x]) @ xs). a \<le> ((pre @ [x]) @ xs) ! argmax_from i x (i + 1) xs)"
    proof (rule Cons.IH)
      show "i < length (pre @ [x])" using Cons.prems by simp
      show "x = (pre @ [x]) ! i" using Cons.prems by simp
      show "\<forall>a\<in>set (pre @ [x]). a \<le> x" using Cons.prems True by fastforce
      show "i + 1 = length (pre @ [x])" using Cons.prems by simp
    qed
    with True show ?thesis by simp
  next
    case False
    have "argmax_from bi bv (i + 1) xs < length ((pre @ [x]) @ xs) \<and>
      (\<forall>a\<in>set ((pre @ [x]) @ xs). a \<le> ((pre @ [x]) @ xs) ! argmax_from bi bv (i + 1) xs)"
    proof (rule Cons.IH)
      show "bi < length (pre @ [x])" using Cons.prems by simp
      show "bv = (pre @ [x]) ! bi" using Cons.prems by (simp add: nth_append)
      show "\<forall>a\<in>set (pre @ [x]). a \<le> bv" using Cons.prems False by auto
      show "i + 1 = length (pre @ [x])" using Cons.prems by simp
    qed
    with False show ?thesis by simp
  qed
qed

lemma argmax_max: "v \<noteq> [] \<Longrightarrow> argmax v < length v \<and> (\<forall>a\<in>set v. a \<le> v ! argmax v)"
proof -
  assume "v \<noteq> []"
  then obtain x xs where v: "v = x # xs" by (cases v) auto
  have "argmax_from 0 x 1 xs < length ([x] @ xs) \<and>
      (\<forall>a\<in>set ([x] @ xs). a \<le> ([x] @ xs) ! argmax_from 0 x 1 xs)"
    by (rule argmax_from_max) simp_all
  then show ?thesis by (simp add: v argmax_def)
qed

lemma count_agree_index:
  "length ps = length ts \<Longrightarrow>
   length (filter (\<lambda>(p, t). P p t) (zip ps ts)) =
   length (filter (\<lambda>i. P (ps ! i) (ts ! i)) [0..<length ps])"
proof (induction ps ts rule: list_induct2)
  case Nil
  show ?case by simp
next
  case (Cons p ps t ts)
  have "[0..<length (p # ps)] = 0 # map Suc [0..<length ps]"
    by (simp add: upt_conv_Cons map_Suc_upt del: upt_Suc)
  then show ?case using Cons
    by (simp add: filter_map o_def del: upt_Suc)
qed

lemma argmax_from_first:
  "bi < length pre \<Longrightarrow> bv = pre ! bi \<Longrightarrow> \<forall>a\<in>set pre. a \<le> bv \<Longrightarrow> \<forall>j<bi. pre ! j < bv \<Longrightarrow>
   i = length pre \<Longrightarrow>
   \<forall>j<argmax_from bi bv i xs. (pre @ xs) ! j < (pre @ xs) ! argmax_from bi bv i xs"
proof (induction xs arbitrary: pre bi bv i)
  case Nil
  then show ?case by simp
next
  case (Cons x xs)
  show ?case
  proof (cases "bv < x")
    case True
    have "\<forall>j<argmax_from i x (i + 1) xs.
        ((pre @ [x]) @ xs) ! j < ((pre @ [x]) @ xs) ! argmax_from i x (i + 1) xs"
    proof (rule Cons.IH)
      show "i < length (pre @ [x])" using Cons.prems by simp
      show "x = (pre @ [x]) ! i" using Cons.prems by simp
      show "\<forall>a\<in>set (pre @ [x]). a \<le> x" using Cons.prems True by fastforce
      show "\<forall>j<i. (pre @ [x]) ! j < x"
      proof (intro allI impI)
        fix j assume "j < i"
        then have "pre ! j \<in> set pre" using Cons.prems by simp
        then have "pre ! j \<le> bv" using Cons.prems by blast
        with True have "pre ! j < x" by linarith
        with \<open>j < i\<close> Cons.prems show "(pre @ [x]) ! j < x" by (simp add: nth_append)
      qed
      show "i + 1 = length (pre @ [x])" using Cons.prems by simp
    qed
    with True show ?thesis by simp
  next
    case False
    have "\<forall>j<argmax_from bi bv (i + 1) xs.
        ((pre @ [x]) @ xs) ! j < ((pre @ [x]) @ xs) ! argmax_from bi bv (i + 1) xs"
    proof (rule Cons.IH)
      show "bi < length (pre @ [x])" using Cons.prems by simp
      show "bv = (pre @ [x]) ! bi" using Cons.prems by (simp add: nth_append)
      show "\<forall>a\<in>set (pre @ [x]). a \<le> bv" using Cons.prems False by auto
      show "\<forall>j<bi. (pre @ [x]) ! j < bv" using Cons.prems by (simp add: nth_append)
      show "i + 1 = length (pre @ [x])" using Cons.prems by simp
    qed
    with False show ?thesis by simp
  qed
qed

lemma argmax_first: "\<forall>j<argmax v. v ! j < v ! argmax v"
proof (cases v)
  case Nil
  then show ?thesis by (simp add: argmax_def)
next
  case (Cons x xs)
  have "\<forall>j<argmax_from 0 x 1 xs. ([x] @ xs) ! j < ([x] @ xs) ! argmax_from 0 x 1 xs"
    by (rule argmax_from_first) simp_all
  then show ?thesis by (simp add: Cons argmax_def)
qed

lemma count_correct_T2:
  "count_correct (T2 x) t = Inr n \<Longrightarrow>
   n = length (filter (\<lambda>i. int (argmax (x ! i)) = t ! i) [0..<length x]) \<and>
   list_all (\<lambda>r. argmax r < length r \<and> (\<forall>a\<in>set r. a \<le> r ! argmax r) \<and>
                  (\<forall>j<argmax r. r ! j < r ! argmax r)) x"
proof -
  assume h: "count_correct (T2 x) t = Inr n"
  then have ne: "list_all (\<lambda>r. r \<noteq> []) x" and len: "length (map argmax x) = length t"
    and n: "n = length (filter (\<lambda>(p, t). int p = t) (zip (map argmax x) t))"
    by (auto simp: count_correct_def split: if_splits)
  have "n = length (filter (\<lambda>i. int (map argmax x ! i) = t ! i) [0..<length (map argmax x)])"
    unfolding n by (rule count_agree_index [OF len])
  also have "\<dots> = length (filter (\<lambda>i. int (argmax (x ! i)) = t ! i) [0..<length x])"
    by (rule arg_cong [where f = length], rule filter_cong) auto
  finally have a: "n = length (filter (\<lambda>i. int (argmax (x ! i)) = t ! i) [0..<length x])" .
  have b: "list_all (\<lambda>r. argmax r < length r \<and> (\<forall>a\<in>set r. a \<le> r ! argmax r) \<and>
                  (\<forall>j<argmax r. r ! j < r ! argmax r)) x"
    using ne argmax_max argmax_first by (simp add: list_all_iff)
  from a b show ?thesis by simp
qed

text \<open>
  Claim C4, as the code has it. \<open>test_model\<close> switches the model to inference mode
  and autograd off, and runs the batches in order. If a batch raises, the call raises.
  Otherwise, if the dataset is empty, the call raises ZeroDivisionError; if it is not,
  the call returns the total of the per-batch counts of correct predictions divided by
  the number of samples of the whole dataset. The value is never negative, and it is at
  most one when the batches hold no more labels than the dataset has samples. On a
  rank-2 output the count of a batch is the number of examples whose label is the
  index \<open>argmax\<close> picks; that index holds a largest score of the example, and every
  score before it is strictly smaller: it is the first place the largest score occurs
  at.
\<close>

theorem test_model_accuracy:
  "test_model call w l epoch =
     (case epoch_correct call (eval_nograd w) (batches l) of
        Inl e \<Rightarrow> Inl e
      | Inr (ns, w') \<Rightarrow>
          if dataset_len l = 0 then Inl ZeroDivisionError
          else Inr (real (sum_list ns) / real (dataset_len l),
                    w'\<lparr>grad_enabled := grad_enabled w\<rparr>)) \<and>
   (test_model call w l epoch = Inr (acc, w'') \<longrightarrow>
      0 \<le> acc \<and> (samples_seen l \<le> dataset_len l \<longrightarrow> acc \<le> 1)) \<and>
   (count_correct (T2 x) t = Inr n \<longrightarrow>
      n = length (filter (\<lambda>i. int (argmax (x ! i)) = t ! i) [0..<length x]) \<and>
      list_all (\<lambda>r. argmax r < length r \<and> (\<forall>a\<in>set r. a \<le> r ! argmax r) \<and>
                     (\<forall>j<argmax r. r ! j < r ! argmax r)) x)"
proof -
  have eq: "test_model call w l epoch =
     (case epoch_correct call (eval_nograd w) (batches l) of
        Inl e \<Rightarrow> Inl e
      | Inr (ns, w') \<Rightarrow>
          if dataset_len l = 0 then Inl ZeroDivisionError
          else Inr (real (sum_list ns) / real (dataset_len l),
                    w'\<lparr>grad_enabled := grad_enabled w\<rparr>))"
    by (simp add: test_model_def eval_nograd_def Let_def test_loop_epoch_correct
        split: sum.splits prod.splits)
  have rng: "0 \<le> acc \<and> (samples_seen l \<le> dataset_len l \<longrightarrow> acc \<le> 1)"
    if h: "test_model call w l epoch = Inr (acc, w'')"
  proof -
    from h eq obtain ns w' where
      e: "epoch_correct call (eval_nograd w) (batches l) = Inr (ns, w')" and
      d: "dataset_len l \<noteq> 0" and
      a: "acc = real (sum_list ns) / real (dataset_len l)"
      by (auto split: sum.splits prod.splits if_splits)
    from epoch_correct_bound [OF e] have "sum_list ns \<le> samples_seen l"
      by (simp add: samples_seen_def)
    with d a show ?thesis by (simp add: divide_le_eq_1)
  qed
  show ?thesis using eq rng count_correct_T2 by blast
qed

lemma softmax_pair: "softmax [a, b] = [exp a / (exp a + exp b), exp b / (exp a + exp b)]"
  by (simp add: softmax_def)

lemma exp_pair_less: "a < b \<Longrightarrow> exp a / (exp a + exp b) < exp b / (exp a + exp (b::real))"
  by (simp add: divide_strict_right_mono add_pos_pos)

lemma exp_pair_less': "b < a \<Longrightarrow> \<not> exp a / (exp a + exp b) < exp b / (exp a + exp (b::real))"
  using exp_pair_less [of b a] by (simp add: add.commute)

lemma demo_eval_run:
  "epoch_correct forward (eval_nograd (fresh_world tiny_net g0)) (batches demo_loader) =
   Inr ([1, 0], eval_nograd (fresh_world tiny_net g0))"
  by (simp add: demo_loader_def eval_nograd_def fresh_world_def tiny_net_def forward_def
      count_correct_def argmax_def softmax_pair exp_pair_less exp_pair_less')

lemma sum_exp_pos: "v \<noteq> [] \<Longrightarrow> 0 < sum_list (map exp (v::real list))"
proof (induction v)
  case Nil
  then show ?case by simp
next
  case (Cons a v)
  show ?case
  proof (cases "v = []")
    case True
    then show ?thesis by simp
  next
    case False
    with Cons.IH have "0 < sum_list (map exp v)" by simp
    then show ?thesis by (simp add: add_pos_pos)
  qed
qed

lemma argmax_from_map:
  assumes "\<And>a b. f a < f b \<longleftrightarrow> a < (b::real)"
  shows "argmax_from bi (f bv) i (map f xs) = argmax_from bi bv i xs"
  by (induction xs arbitrary: bi bv i) (simp_all add: assms)

lemma argmax_softmax: "argmax (softmax v) = argmax v"
proof (cases v)
  case Nil
  then show ?thesis by (simp add: softmax_def)
next
  case (Cons x xs)
  define S where "S = sum_list (map exp v)"
  have S: "0 < S" unfolding S_def by (rule sum_exp_pos) (simp add: Cons)
  have mono: "exp a / S < exp b / S \<longleftrightarrow> a < b" for a b :: real
    using S by (simp add: divide_less_cancel)
  have "softmax v = map (\<lambda>a. exp a / S) v"
    by (simp add: softmax_def S_def)
  then have "argmax (softmax v) = argmax_from 0 (exp x / S) 1 (map (\<lambda>a. exp a / S) xs)"
    by (simp add: argmax_def Cons)
  also have "\<dots> = argmax_from 0 x 1 xs"
    by (rule argmax_from_map) (rule mono)
  finally show ?thesis by (simp add: argmax_def Cons)
qed

lemma tied_eval_run:
  "epoch_correct forward (eval_nograd (fresh_world tiny_net g0)) (batches tied_loader) =
   Inr ([2], eval_nograd (fresh_world tiny_net g0))"
proof -
  have a: "argmax (softmax [1, 3, 3]) = 1" "argmax (softmax [3, 3, 1]) = 0"
    unfolding argmax_softmax by (simp_all add: argmax_def)
  have b: "softmax [1, 3, 3] \<noteq> []" "softmax [3, 3, 1] \<noteq> []"
    by (simp_all add: softmax_def)
  show ?thesis
    by (simp add: tied_loader_def eval_nograd_def fresh_world_def tiny_net_def forward_def
        count_correct_def a b)
qed

text \<open>
  Two batches of one example each over a dataset of two samples; the first prediction
  is right, the second is wrong: the accuracy is one half. And one batch of two examples
  in which the largest score occurs twice, labelled with the first place it occurs at:
  both predictions are right, the accuracy is one.
\<close>

theorem test_model_accuracy_witness:
  "test_model forward (fresh_world tiny_net g0) demo_loader 0 =
     Inr (1 / 2, fresh_world tiny_net g0) \<and>
   samples_seen demo_loader \<le> dataset_len demo_loader \<and>
   (0::real) \<le> 1 / 2 \<and> (1::real) / 2 \<le> 1 \<and>
   test_model forward (fresh_world tiny_net g0) tied_loader 0 =
     Inr (1, fresh_world tiny_net g0) \<and>
   samples_seen tied_loader \<le> dataset_len tied_loader \<and>
   count_correct (T2 [[1, 3, 3], [3, 3, 1]]) [1, 0] = Inr 2 \<and>
   argmax [1, 3, 3] = 1 \<and> argmax [3, 3, 1] = 0"
proof -
  have a: "test_model forward (fresh_world tiny_net g0) demo_loader 0 =
      Inr (1 / 2, fresh_world tiny_net g0)"
    using test_model_accuracy [where call = forward and w = "fresh_world tiny_net g0"
        and l = demo_loader and epoch = 0 and acc = "1 / 2" and w'' = "fresh_world tiny_net g0"
        and x = "[[3, 4]]" and t = "[1]" and n = 1]
      demo_eval_run
    by (simp add: demo_loader_def eval_nograd_def fresh_world_def tiny_net_def)
  have b: "samples_seen demo_loader \<le> dataset_len demo_loader"
    by (simp add: samples_seen_def demo_loader_def)
  have c: "test_model forward (fresh_world tiny_net g0) tied_loader 0 =
      Inr (1, fresh_world tiny_net g0)"
    using test_model_accuracy [where call = forward and w = "fresh_world tiny_net g0"
        and l = tied_loader and epoch = 0 and acc = 1 and w'' = "fresh_world tiny_net g0"
        and x = "[[1, 3, 3], [3, 3, 1]]" and t = "[1, 0]" and n = 2]
      tied_eval_run
    by (simp add: tied_loader_def eval_nograd_def fresh_world_def tiny_net_def)
  have d: "samples_seen tied_loader \<le> dataset_len tied_loader"
    by (simp add: samples_seen_def tied_loader_def)
  have e: "count_correct (T2 [[1, 3, 3], [3, 3, 1]]) [1, 0] = Inr 2"
    by (simp add: count_correct_def argmax_def)
  from a b c d e show ?thesis by (simp add: argmax_def)
qed

text \<open>
  The claim as stated fails twice: on an empty dataset the call raises
  ZeroDivisionError, and when the loader's sampler yields the one sample of its dataset
  twice the call returns 2.
\<close>

theorem test_model_not_a_fraction:
  "test_model forward (fresh_world tiny_net g0) empty_loader 0 = Inl ZeroDivisionError \<and>
   test_model forward (fresh_world tiny_net g0) resampling_loader 0 = Inr (2, fresh_world tiny_net g0)"
  by (simp add: test_model_def empty_loader_def resampling_loader_def fresh_world_def tiny_net_def
      forward_def count_correct_def argmax_def softmax_pair exp_pair_less)

section \<open>Inference mode\<close>

lemma apply_layer_inference:
  "\<exists>r. \<forall>g. apply_layer False g l x = (case r of Inl e \<Rightarrow> Inl e | Inr y \<Rightarrow> Inr (y, l, g))"
proof (cases l)
  case Flatten
  then show ?thesis by (intro exI [of _ "Inr (flatten x)"]) simp
next
  case (Linear n m W b)
  then show ?thesis
    by (intro exI [of _ "linear_fwd n W b x"]) (simp split: sum.splits)
next
  case ReLU
  then show ?thesis by (intro exI [of _ "Inr (relu x)"]) simp
next
  case (Conv2d cin cout k s W b)
  then show ?thesis
    by (intro exI [of _ "conv2d_fwd cin k s W b x"]) (simp split: sum.splits)
next
  case (BatchNorm2d n gamma beta rm rv nbt)
  show ?thesis
  proof (cases "batchnorm2d_fwd False n gamma beta rm rv nbt x")
    case (Inl e)
    then show ?thesis unfolding BatchNorm2d by (intro exI [of _ "Inl e"]) simp
  next
    case (Inr p)
    then obtain y where "batchnorm2d_fwd False n gamma beta rm rv nbt x =
        Inr (y, BatchNorm2d n gamma beta rm rv nbt)"
      by (cases x) (auto split: if_splits)
    then show ?thesis unfolding BatchNorm2d by (intro exI [of _ "Inr y"]) simp
  qed
next
  case (MaxPool2d k s)
  then show ?thesis
    by (intro exI [of _ "maxpool2d_fwd k s x"]) (simp split: sum.splits)
next
  case (Dropout p)
  then show ?thesis by (intro exI [of _ "Inr x"]) simp
qed

lemma seq_forward_inference:
  "\<exists>r. \<forall>g. seq_forward False g ls x = (case r of Inl e \<Rightarrow> Inl e | Inr y \<Rightarrow> Inr (y, ls, g))"
proof (induction ls arbitrary: x)
  case Nil
  show ?case by (intro exI [of _ "Inr x"]) simp
next
  case (Cons l ls)
  obtain r where r: "\<And>g. apply_layer False g l x =
      (case r of Inl e \<Rightarrow> Inl e | Inr y \<Rightarrow> Inr (y, l, g))"
    using apply_layer_inference by blast
  show ?case
  proof (cases r)
    case (Inl e)
    with r show ?thesis by (intro exI [of _ "Inl e"]) simp
  next
    case (Inr y)
    obtain r' where r': "\<And>g. seq_forward False g ls y =
        (case r' of Inl e \<Rightarrow> Inl e | Inr z \<Rightarrow> Inr (z, ls, g))"
      using Cons [of y] by blast
    show ?thesis
      by (intro exI [of _ r']) (simp add: r r' Inr split: sum.splits)
  qed
qed

lemma forward_inference:
  assumes "\<not> training (model w)"
  shows "\<exists>r. \<forall>w'. \<not> training (model w') \<and> layers (model w') = layers (model w) \<longrightarrow>
    forward w' x =
      (case r of
         Inl e \<Rightarrow> Inl e
       | Inr y \<Rightarrow> Inr (softmax_dim1 y,
                   w'\<lparr>recorded := (if grad_enabled w' then recorded w' + 1 else recorded w')\<rparr>))"
proof -
  obtain r where r: "\<And>g. seq_forward False g (layers (model w)) x =
      (case r of Inl e \<Rightarrow> Inl e | Inr y \<Rightarrow> Inr (y, layers (model w), g))"
    using seq_forward_inference by blast
  show ?thesis
    by (intro exI [of _ r]) (auto simp: forward_def r Let_def split: sum.splits)
qed

lemma forward_nograd_inference:
  assumes "\<not> training (model w)" "\<not> grad_enabled w" "forward w x = Inr (y, w')"
  shows "w' = w"
proof -
  obtain r where r: "\<And>g. seq_forward False g (layers (model w)) x =
      (case r of Inl e \<Rightarrow> Inl e | Inr y \<Rightarrow> Inr (y, layers (model w), g))"
    using seq_forward_inference by blast
  from assms show ?thesis
    by (auto simp: forward_def r Let_def split: sum.splits)
qed

lemma epoch_correct_nograd_inference:
  "\<not> training (model w) \<Longrightarrow> \<not> grad_enabled w \<Longrightarrow>
   epoch_correct forward w bs = Inr (ns, w') \<Longrightarrow> w' = w"
proof (induction bs arbitrary: ns)
  case Nil
  then show ?case by simp
next
  case (Cons b bs)
  obtain input target where b: "b = (input, target)" by (cases b)
  from Cons.prems(3) obtain y w1 n ns1 where
    f: "forward w input = Inr (y, w1)" and
    e: "epoch_correct forward w1 bs = Inr (ns1, w')"
    unfolding b by (auto split: sum.splits prod.splits)
  from forward_nograd_inference [OF Cons.prems(1,2) f] have "w1 = w" .
  with e Cons.IH [OF Cons.prems(1,2)] show ?case by simp
qed

lemma forward_records_graph:
  "grad_enabled w \<Longrightarrow> forward w x = Inr (y, w1) \<Longrightarrow> recorded w1 = recorded w + 1"
  by (auto simp: forward_def Let_def split: sum.splits prod.splits if_splits)

lemma drop_net_run:
  "test_model forward (fresh_world drop_net g0) demo_loader 0 =
   Inr (1 / 2, (fresh_world drop_net g0)\<lparr>model := drop_net\<lparr>training := False\<rparr>\<rparr>)"
  by (simp add: test_model_def demo_loader_def fresh_world_def drop_net_def forward_def
      count_correct_def argmax_def softmax_pair exp_pair_less exp_pair_less')

lemma training_forward_depends_on_generator:
  "forward (fresh_world drop_net g0) (T3 [[[2], [5]]]) =
     Inr (T2 [[2 / (1 - 2 / 10), 5 / (1 - 2 / 10)]],
          (fresh_world drop_net g0)\<lparr>recorded := 1, gen := \<lambda>i. g0 (i + 2)\<rparr>) \<and>
   forward (fresh_world drop_net g1) (T3 [[[2], [5]]]) =
     Inr (T2 [[0, 0]], (fresh_world drop_net g1)\<lparr>recorded := 1, gen := \<lambda>i. g1 (i + 2)\<rparr>)"
  by (simp add: fresh_world_def drop_net_def forward_def dropout_vec_def draws_def g0_def g1_def)

text \<open>
  Claim C7. A call of \<open>test_model\<close> on a classifier of this repository that returns
  leaves the layers with every parameter and buffer, the gradient buffers, the count of
  forward passes recorded by autograd, autograd's switch and the generator as they
  were; the mode flag, now inference, is the only change. The count stays although a
  forward pass outside \<^verbatim>\<open>torch.no_grad()\<close> adds one to it: the whole pass runs inside
  the scope.
\<close>

theorem test_model_frame:
  "test_model forward w l epoch = Inr (acc, w') \<Longrightarrow>
   layers (model w') = layers (model w) \<and> training (model w') = False \<and>
   grads w' = grads w \<and> recorded w' = recorded w \<and>
   grad_enabled w' = grad_enabled w \<and> gen w' = gen w \<and>
   w' = w\<lparr>model := (model w)\<lparr>training := False\<rparr>\<rparr> \<and>
   (grad_enabled w1 \<and> forward w1 x = Inr (y, w2) \<longrightarrow> recorded w2 = recorded w1 + 1)"
proof -
  assume h: "test_model forward w l epoch = Inr (acc, w')"
  then obtain ns w3 where
    e: "epoch_correct forward (eval_nograd w) (batches l) = Inr (ns, w3)" and
    w': "w' = w3\<lparr>grad_enabled := grad_enabled w\<rparr>"
    by (auto simp: test_model_def eval_nograd_def Let_def test_loop_epoch_correct
        split: sum.splits prod.splits if_splits)
  have "w3 = eval_nograd w"
    by (rule epoch_correct_nograd_inference [OF _ _ e]) (simp_all add: eval_nograd_def)
  with w' have "w' = w\<lparr>model := (model w)\<lparr>training := False\<rparr>\<rparr>"
    by (simp add: eval_nograd_def)
  then show ?thesis using forward_records_graph by auto
qed

text \<open>
  A classifier with dropout that enters the evaluation loop in training mode: the call
  returns the accuracy one half and the world it was given, in inference mode.
\<close>

theorem test_model_frame_witness:
  "test_model forward (fresh_world drop_net g0) demo_loader 0 =
     Inr (1 / 2, (fresh_world drop_net g0)\<lparr>model := drop_net\<lparr>training := False\<rparr>\<rparr>) \<and>
   layers (model ((fresh_world drop_net g0)\<lparr>model := drop_net\<lparr>training := False\<rparr>\<rparr>)) =
     layers (model (fresh_world drop_net g0)) \<and>
   recorded ((fresh_world drop_net g0)\<lparr>model := drop_net\<lparr>training := False\<rparr>\<rparr>) =
     recorded (fresh_world drop_net g0) \<and>
   grads ((fresh_world drop_net g0)\<lparr>model := drop_net\<lparr>training := False\<rparr>\<rparr>) =
     grads (fresh_world drop_net g0)"
  using test_model_frame [OF drop_net_run, of "fresh_world drop_net g0" "T3 []" "T3 []" "fresh_world drop_net g0"]
    drop_net_run
  by simp

text \<open>
  Claim C8. Take a classifier in inference mode. Every forward call with the same
  input on a world in inference mode with the same layers returns the same output, or
  raises the same error, whatever the generator and the rest of the world are. A
  forward call that returns leaves the model and the generator as they were, so a second
  call on the world it leaves returns the same output. (In training mode the output of
  a stack with dropout does depend on the generator:
  \<open>training_forward_depends_on_generator\<close>.)
\<close>

theorem inference_forward_deterministic:
  "\<not> training (model w) \<Longrightarrow>
   (\<forall>w'. \<not> training (model w') \<and> layers (model w') = layers (model w) \<longrightarrow>
      map_sum id fst (forward w' x) = map_sum id fst (forward w x)) \<and>
   (\<forall>y w1. forward w x = Inr (y, w1) \<longrightarrow>
      model w1 = model w \<and> gen w1 = gen w \<and> (\<exists>w2. forward w1 x = Inr (y, w2)))"
proof -
  assume tr: "\<not> training (model w)"
  from forward_inference [OF tr, of x] obtain r where
    r: "\<And>w'. \<not> training (model w') \<Longrightarrow> layers (model w') = layers (model w) \<Longrightarrow>
      forward w' x =
        (case r of
           Inl e \<Rightarrow> Inl e
         | Inr y \<Rightarrow> Inr (softmax_dim1 y,
                     w'\<lparr>recorded := (if grad_enabled w' then recorded w' + 1 else recorded w')\<rparr>))"
    by blast
  have a: "map_sum id fst (forward w' x) = map_sum id fst (forward w x)"
    if "\<not> training (model w')" "layers (model w') = layers (model w)" for w'
    using r [OF that] r [OF tr refl] by (simp split: sum.splits)
  have b: "model w1 = model w \<and> gen w1 = gen w \<and> (\<exists>w2. forward w1 x = Inr (y, w2))"
    if f: "forward w x = Inr (y, w1)" for y w1
  proof -
    from f r [OF tr refl] obtain z where z: "r = Inr z" "y = softmax_dim1 z"
      "w1 = w\<lparr>recorded := (if grad_enabled w then recorded w + 1 else recorded w)\<rparr>"
      by (auto split: sum.splits)
    then have m: "model w1 = model w" "gen w1 = gen w" by simp_all
    from r [of w1] m tr z show ?thesis by simp
  qed
  from a b show ?thesis by blast
qed

text \<open>
  The stack with dropout in inference mode: the output on one example is the softmax
  of the example, under either generator.
\<close>

theorem inference_forward_deterministic_witness:
  "map_sum id fst (forward ((fresh_world (drop_net\<lparr>training := False\<rparr>) g0)\<lparr>gen := g1\<rparr>) (T3 [[[2], [5]]])) =
   map_sum id fst (forward (fresh_world (drop_net\<lparr>training := False\<rparr>) g0) (T3 [[[2], [5]]])) \<and>
   forward (fresh_world (drop_net\<lparr>training := False\<rparr>) g0) (T3 [[[2], [5]]]) =
     Inr (T2 [softmax [2, 5]], (fresh_world (drop_net\<lparr>training := False\<rparr>) g0)\<lparr>recorded := 1\<rparr>)"
proof -
  have "\<not> training (model (fresh_world (drop_net\<lparr>training := False\<rparr>) g0))"
    by (simp add: fresh_world_def)
  from inference_forward_deterministic [OF this, of "T3 [[[2], [5]]]"]
  show ?thesis
    by (simp add: fresh_world_def drop_net_def forward_def)
qed

section \<open>Softmax and the predicted class\<close>

lemma width_Cons: "width (m # e) = (case m of [] \<Rightarrow> 0 | r # _ \<Rightarrow> length r)"
  by (simp add: width_def)

lemma height_Cons: "height (m # e) = length m"
  by (simp add: height_def)

lemma length_softmax: "length (softmax v) = length v"
  by (simp add: softmax_def)

lemma fibre3_softmax:
  assumes "j < width [m]"
  shows "fibre3 (map (\<lambda>i. map (\<lambda>j. softmax (fibre3 m j) ! i) [0..<width [m]]) [0..<length m]) j
         = softmax (fibre3 m j)"
proof -
  have "length (softmax (fibre3 m j)) = length m"
    by (simp add: length_softmax fibre3_def)
  then have "softmax (fibre3 m j) = map (\<lambda>i. softmax (fibre3 m j) ! i) [0..<length m]"
    by (metis map_nth)
  with assms show ?thesis
    by (simp add: fibre3_def o_def)
qed

lemma width_softmax3:
  "m \<noteq> [] \<Longrightarrow>
   width [map (\<lambda>i. map (\<lambda>j. softmax (fibre3 m j) ! i) [0..<width [m]]) [0..<length m]] = width [m]"
proof -
  assume "m \<noteq> []"
  then have "[0..<length m] = 0 # [1..<length m]"
    by (simp add: upt_conv_Cons)
  then show ?thesis
    by (simp add: width_Cons)
qed

lemma max_dim1_softmax3:
  "max_dim1 (softmax_dim1 (T3 x)) = max_dim1 (T3 x)"
proof -
  define F where "F = (\<lambda>m::real list list.
    map (\<lambda>i. map (\<lambda>j. softmax (fibre3 m j) ! i) [0..<width [m]]) [0..<length m])"
  have ne: "list_all (\<lambda>m. m \<noteq> []) (map F x) = list_all (\<lambda>m. m \<noteq> []) x"
    by (simp add: list_all_iff F_def)
  have row: "map (\<lambda>j. argmax (fibre3 (F m) j)) [0..<width [F m]] =
             map (\<lambda>j. argmax (fibre3 m j)) [0..<width [m]]" if "m \<noteq> []" for m
  proof -
    have w: "width [F m] = width [m]" unfolding F_def by (rule width_softmax3 [OF that])
    show ?thesis unfolding w
      by (rule map_cong [OF refl]) (simp add: F_def fibre3_softmax argmax_softmax)
  qed
  have "list_all (\<lambda>m. m \<noteq> []) x \<Longrightarrow>
    concat (map (\<lambda>m. map (\<lambda>j. argmax (fibre3 m j)) [0..<width [m]]) (map F x)) =
    concat (map (\<lambda>m. map (\<lambda>j. argmax (fibre3 m j)) [0..<width [m]]) x)"
    by (rule arg_cong [where f = concat]) (simp add: list_all_iff row)
  then show ?thesis
    using ne by (simp add: F_def [symmetric])
qed

lemma fibre4_softmax:
  assumes "i < height e" "j < width e"
  shows "fibre4 (map (\<lambda>c. map (\<lambda>i. map (\<lambda>j. softmax (fibre4 e i j) ! c)
            [0..<width e]) [0..<height e]) [0..<length e]) i j
         = softmax (fibre4 e i j)"
proof -
  have "length (softmax (fibre4 e i j)) = length e"
    by (simp add: length_softmax fibre4_def)
  then have "softmax (fibre4 e i j) = map (\<lambda>c. softmax (fibre4 e i j) ! c) [0..<length e]"
    by (metis map_nth)
  with assms show ?thesis
    by (simp add: fibre4_def o_def)
qed

lemma max_dim1_softmax4:
  "max_dim1 (softmax_dim1 (T4 x)) = max_dim1 (T4 x)"
proof -
  define F where "F = (\<lambda>e::real list list list.
    map (\<lambda>c. map (\<lambda>i. map (\<lambda>j. softmax (fibre4 e i j) ! c)
      [0..<width e]) [0..<height e]) [0..<length e])"
  have ne: "list_all (\<lambda>e. e \<noteq> []) (map F x) = list_all (\<lambda>e. e \<noteq> []) x"
    by (simp add: list_all_iff F_def)
  have ex: "concat (map (\<lambda>i. map (\<lambda>j. argmax (fibre4 (F e) i j)) [0..<width (F e)])
                [0..<height (F e)]) =
            concat (map (\<lambda>i. map (\<lambda>j. argmax (fibre4 e i j)) [0..<width e]) [0..<height e])"
    if "e \<noteq> []" for e
  proof -
    from that have up: "[0..<length e] = 0 # [1..<length e]"
      by (simp add: upt_conv_Cons)
    have h: "height (F e) = height e"
      unfolding F_def up by (simp add: height_Cons)
    show ?thesis
    proof (cases "height e = 0")
      case True
      with h show ?thesis by simp
    next
      case False
      then have uph: "[0..<height e] = 0 # [1..<height e]"
        by (simp add: upt_conv_Cons)
      have w: "width (F e) = width e"
        unfolding F_def up uph by (simp add: width_Cons)
      show ?thesis unfolding h w
        by (rule arg_cong [where f = concat], rule map_cong [OF refl], rule map_cong [OF refl])
          (simp add: F_def fibre4_softmax argmax_softmax)
    qed
  qed
  have "list_all (\<lambda>e. e \<noteq> []) x \<Longrightarrow>
    concat (map (\<lambda>e. concat (map (\<lambda>i. map (\<lambda>j. argmax (fibre4 e i j))
        [0..<width e]) [0..<height e])) (map F x)) =
    concat (map (\<lambda>e. concat (map (\<lambda>i. map (\<lambda>j. argmax (fibre4 e i j))
        [0..<width e]) [0..<height e])) x)"
    by (rule arg_cong [where f = concat]) (simp add: list_all_iff ex)
  then show ?thesis
    using ne by (simp add: F_def [symmetric])
qed

lemma max_dim1_softmax: "max_dim1 (softmax_dim1 t) = max_dim1 t"
proof (cases t)
  case (T2 x)
  have "list_all (\<lambda>r. r \<noteq> []) (map softmax x) = list_all (\<lambda>r. r \<noteq> []) x"
    by (simp add: list_all_iff softmax_def)
  then show ?thesis by (simp add: T2 argmax_softmax)
next
  case (T3 x)
  then show ?thesis by (simp only: max_dim1_softmax3)
next
  case (T4 x)
  then show ?thesis by (simp only: max_dim1_softmax4)
qed

lemma count_correct_softmax: "count_correct (softmax_dim1 out) t = count_correct out t"
  by (simp add: count_correct_def max_dim1_softmax)

lemma forward_via_logits:
  "\<not> training (model w) \<Longrightarrow>
   forward w x =
     (case forward_logits w x of
        Inl e \<Rightarrow> Inl e
      | Inr (out, w') \<Rightarrow> Inr (softmax_dim1 out, w'))"
  by (simp add: forward_def forward_logits_def Let_def split: sum.splits prod.splits)

lemma forward_logits_training:
  "forward_logits w x = Inr (out, w') \<Longrightarrow> training (model w') = training (model w)"
  by (auto simp: forward_logits_def split: sum.splits prod.splits)

lemma epoch_correct_logits:
  "\<not> training (model w) \<Longrightarrow>
   epoch_correct forward w bs = epoch_correct forward_logits w bs"
proof (induction bs arbitrary: w)
  case Nil
  show ?case by simp
next
  case (Cons b bs)
  obtain input target where b: "b = (input, target)" by (cases b)
  show ?case
  proof (cases "forward_logits w input")
    case (Inl e)
    with Cons.prems show ?thesis unfolding b by (simp add: forward_via_logits)
  next
    case (Inr p)
    obtain out w' where p: "p = (out, w')" by (cases p)
    from forward_logits_training [of w input out w'] Inr p Cons.prems
    have "\<not> training (model w')" by simp
    from Cons.IH [OF this] Inr p Cons.prems show ?thesis unfolding b
      by (simp add: forward_via_logits count_correct_softmax split: sum.splits)
  qed
qed

lemma rne_of_int: "rne (of_int k) = k"
  by (simp add: rne_def)

lemma rne_mono: "x \<le> y \<Longrightarrow> rne x \<le> rne y"
proof -
  assume xy: "x \<le> y"
  have lo: "\<lfloor>z\<rfloor> \<le> rne z" and hi: "rne z \<le> \<lfloor>z\<rfloor> + 1" for z
    by (simp_all add: rne_def Let_def)
  from xy have "\<lfloor>x\<rfloor> \<le> \<lfloor>y\<rfloor>" by (rule floor_mono)
  then consider "\<lfloor>x\<rfloor> < \<lfloor>y\<rfloor>" | "\<lfloor>x\<rfloor> = \<lfloor>y\<rfloor>" by linarith
  then show ?thesis
  proof cases
    case 1
    with hi [of x] lo [of y] show ?thesis by linarith
  next
    case 2
    with xy show ?thesis by (auto simp: rne_def Let_def)
  qed
qed

lemma rne_minus: "rne (- x) = - rne x"
proof (cases "x = of_int \<lfloor>x\<rfloor>")
  case True
  then obtain k where "x = of_int k" ..
  then have "rne x = k" "rne (- x) = - k"
    using rne_of_int [of k] rne_of_int [of "- k"] by simp_all
  then show ?thesis by simp
next
  case False
  then have f: "\<lfloor>- x\<rfloor> = - \<lfloor>x\<rfloor> - 1"
    using ceiling_altdef [of x] by (simp add: ceiling_def)
  show ?thesis
    unfolding rne_def Let_def f by auto
qed

lemma float32_0: "float32 0 = 0"
  by (simp add: float32_def)

lemma float32_minus: "float32 (- x) = - float32 x"
  by (simp add: float32_def Let_def rne_minus)

lemma float32_nonneg: "0 \<le> x \<Longrightarrow> 0 \<le> float32 x"
proof -
  assume "0 \<le> x"
  have "0 \<le> rne (x / u)" if "0 < u" for u
  proof -
    from that \<open>0 \<le> x\<close> have "0 \<le> x / u" by simp
    from rne_mono [OF this] show ?thesis by (simp add: rne_def)
  qed
  then show ?thesis by (simp add: float32_def Let_def)
qed

lemma float32_upper:
  assumes "0 < x"
  shows "float32 x \<le> 2 powr (of_int (max \<lfloor>log 2 x\<rfloor> (- 126)) + 1)"
proof -
  define e where "e = max \<lfloor>log 2 x\<rfloor> (- 126)"
  define u where "u = (2::real) powr (of_int e - 23)"
  have u: "0 < u" by (simp add: u_def)
  have "log 2 x < of_int \<lfloor>log 2 x\<rfloor> + 1" by linarith
  also have "\<dots> \<le> of_int e + 1" by (simp add: e_def)
  finally have "log 2 x < of_int e + 1" .
  then have "x < 2 powr (of_int e + 1)"
    using assms by (simp add: log_less_iff)
  then have "x / u < 2 powr (of_int e + 1) / u"
    using u by (simp add: divide_strict_right_mono)
  also have "2 powr (of_int e + 1) / u = 2 powr 24"
    unfolding u_def by (simp add: powr_diff [symmetric])
  also have "\<dots> = of_int (2 ^ 24)"
    by (simp add: powr_numeral)
  finally have "x / u \<le> of_int (2 ^ 24)" by simp
  from rne_mono [OF this] have "rne (x / u) \<le> 2 ^ 24"
    by (simp only: rne_of_int)
  then have "of_int (rne (x / u)) \<le> (2 ^ 24 :: real)"
    by (metis of_int_le_iff of_int_numeral of_int_power)
  then have "of_int (rne (x / u)) * u \<le> 2 ^ 24 * u"
    using u by (simp add: mult_right_mono)
  also have "2 ^ 24 * u = 2 powr (of_int e + 1)"
  proof -
    have "(2::real) ^ 24 = 2 powr 24" by simp
    then have "2 ^ 24 * u = 2 powr 24 * 2 powr (of_int e - 23)"
      by (simp only: u_def)
    also have "\<dots> = 2 powr (24 + (of_int e - 23))"
      by (rule powr_add [symmetric])
    also have "24 + (real_of_int e - 23) = of_int e + 1" by simp
    finally show ?thesis .
  qed
  finally show ?thesis
    using assms by (simp add: float32_def Let_def e_def u_def)
qed

lemma float32_lower:
  assumes "0 < x" "- 126 \<le> \<lfloor>log 2 x\<rfloor>"
  shows "2 powr (of_int \<lfloor>log 2 x\<rfloor>) \<le> float32 x"
proof -
  define e where "e = \<lfloor>log 2 x\<rfloor>"
  define u where "u = (2::real) powr (of_int e - 23)"
  have u: "0 < u" by (simp add: u_def)
  have m: "max \<lfloor>log 2 x\<rfloor> (- 126) = e" using assms by (simp add: e_def)
  have "of_int e \<le> log 2 x" by (simp add: e_def)
  then have "2 powr (of_int e) \<le> x"
    using assms by (simp add: le_log_iff)
  then have "2 powr (of_int e) / u \<le> x / u"
    using u by (simp add: divide_right_mono)
  moreover have "2 powr (of_int e) / u = 2 powr 23"
    unfolding u_def by (simp add: powr_diff [symmetric])
  moreover have "2 powr 23 = real_of_int (2 ^ 23)"
    by (simp add: powr_numeral)
  ultimately have "of_int (2 ^ 23) \<le> x / u" by simp
  from rne_mono [OF this] have "2 ^ 23 \<le> rne (x / u)"
    by (simp only: rne_of_int)
  then have "(2 ^ 23 :: real) \<le> of_int (rne (x / u))"
    by (metis of_int_le_iff of_int_numeral of_int_power)
  then have step: "2 ^ 23 * u \<le> of_int (rne (x / u)) * u"
    using u by (simp add: mult_right_mono)
  have k: "2 ^ 23 * u = 2 powr (of_int e)"
  proof -
    have "(2::real) ^ 23 = 2 powr 23" by simp
    then have "2 ^ 23 * u = 2 powr 23 * 2 powr (of_int e - 23)"
      by (simp only: u_def)
    also have "\<dots> = 2 powr (23 + (of_int e - 23))"
      by (rule powr_add [symmetric])
    also have "23 + (real_of_int e - 23) = of_int e" by simp
    finally show ?thesis .
  qed
  have m2: "max e (- 126) = e" using assms(2) by (simp add: e_def)
  have fx: "float32 x = of_int (rne (x / u)) * u"
    using assms(1) by (simp add: float32_def Let_def u_def e_def [symmetric] m2)
  from step k fx show ?thesis
    unfolding e_def [symmetric] by linarith
qed

lemma float32_mono_pos:
  assumes "0 < x" "x \<le> y"
  shows "float32 x \<le> float32 y"
proof -
  define ex where "ex = max \<lfloor>log 2 x\<rfloor> (- 126)"
  define ey where "ey = max \<lfloor>log 2 y\<rfloor> (- 126)"
  from assms have y: "0 < y" by simp
  from assms have "log 2 x \<le> log 2 y" by simp
  then have fl: "\<lfloor>log 2 x\<rfloor> \<le> \<lfloor>log 2 y\<rfloor>" by (rule floor_mono)
  then have "ex \<le> ey" by (simp add: ex_def ey_def)
  then consider "ex = ey" | "ex < ey" by linarith
  then show ?thesis
  proof cases
    case 1
    define u where "u = (2::real) powr (of_int ex - 23)"
    have u: "0 < u" by (simp add: u_def)
    from assms u have "x / u \<le> y / u" by (simp add: divide_right_mono)
    from rne_mono [OF this] have "real_of_int (rne (x / u)) * u \<le> of_int (rne (y / u)) * u"
      using u by (simp add: mult_right_mono)
    then show ?thesis
      using assms y 1 by (simp add: float32_def Let_def ex_def [symmetric] ey_def [symmetric] u_def)
  next
    case 2
    then have big: "- 126 < \<lfloor>log 2 y\<rfloor>" and eyy: "ey = \<lfloor>log 2 y\<rfloor>"
      by (simp_all add: ex_def ey_def max_def split: if_splits)
    have "float32 x \<le> 2 powr (of_int ex + 1)"
      unfolding ex_def by (rule float32_upper [OF assms(1)])
    also have "\<dots> \<le> 2 powr (of_int ey)"
      using 2 by simp
    also have "\<dots> \<le> float32 y"
      unfolding eyy by (rule float32_lower [OF y]) (insert big, simp)
    finally show ?thesis .
  qed
qed

lemma float32_mono: "x \<le> y \<Longrightarrow> float32 x \<le> float32 y"
proof -
  assume xy: "x \<le> y"
  consider "0 < x" | "x \<le> 0" "0 \<le> y" | "y < 0" using xy by linarith
  then show ?thesis
  proof cases
    case 1
    from 1 xy show ?thesis by (rule float32_mono_pos)
  next
    case 2
    from float32_nonneg [of "- x"] 2 have "float32 x \<le> 0" by (simp add: float32_minus)
    with float32_nonneg [of y] 2 show ?thesis by simp
  next
    case 3
    with xy have "float32 (- y) \<le> float32 (- x)" by (intro float32_mono_pos) simp_all
    then show ?thesis by (simp add: float32_minus)
  qed
qed

lemma float32_eval:
  assumes "2 powr (of_int e) \<le> \<bar>x\<bar>" "\<bar>x\<bar> < 2 powr (of_int e + 1)" "- 126 \<le> e"
  shows "float32 x = of_int (rne (x / 2 powr (of_int e - 23))) * 2 powr (of_int e - 23)"
proof -
  from assms(1) have x: "x \<noteq> 0" "0 < \<bar>x\<bar>"
    using powr_gt_zero [of 2 "of_int e"] by auto
  have "\<lfloor>log 2 \<bar>x\<bar>\<rfloor> = e"
    using assms x by (simp add: floor_log_eq_powr_iff)
  with assms(3) x show ?thesis by (simp add: float32_def Let_def)
qed

lemma rne_numeral: "rne (numeral k) = numeral k"
  using rne_of_int [of "numeral k"] by simp

lemma float32_one: "float32 1 = 1"
  using float32_eval [of 0 1] by (simp add: rne_numeral powr_minus powr_numeral)

lemma float32_two: "float32 2 = 2"
  using float32_eval [of 1 2] by (simp add: powr_minus powr_numeral rne_numeral)

lemma float32_half: "float32 (1 / 2) = 1 / 2"
  using float32_eval [of "- 1" "1 / 2"] by (simp add: powr_minus powr_numeral rne_numeral)


lemma foldl_add_sum: "foldl (+) s es = s + sum_list (es::real list)"
  by (induction es arbitrary: s) simp_all

lemma softmax_rounded_id: "softmax_rounded id v = softmax v"
proof -
  define m where "m = maximum v"
  have s: "sum_list (map (\<lambda>a. exp (a - m)) v) = sum_list (map exp v) / exp m"
    by (simp add: exp_diff sum_list_divide)
  have "exp (a - m) * (1 / sum_list (map (\<lambda>a. exp (a - m)) v)) = exp a / sum_list (map exp v)"
    for a
    unfolding s by (simp add: exp_diff)
  then show ?thesis
    by (simp add: softmax_rounded_def softmax_def Let_def m_def [symmetric] foldl_add_sum o_def)
qed

lemma softmax_dim1_rounded_id: "softmax_dim1_rounded id t = softmax_dim1 t"
  by (cases t) (simp_all add: softmax_rounded_id)

lemma forward_rounded_id: "forward_rounded id w x = forward w x"
  unfolding forward_rounded_def forward_def softmax_dim1_rounded_id ..

lemma foldl_rounded_nonneg:
  fixes rnd :: "real \<Rightarrow> real"
  assumes "rnd 0 = 0" "\<And>x y. x \<le> y \<Longrightarrow> rnd x \<le> rnd y"
  shows "0 \<le> s \<Longrightarrow> \<forall>e\<in>set es. 0 \<le> e \<Longrightarrow> 0 \<le> foldl (\<lambda>s e. rnd (s + e)) s es"
proof (induction es arbitrary: s)
  case Nil
  then show ?case by simp
next
  case (Cons e es)
  from Cons.prems have "0 \<le> s + e" by (simp add: add_nonneg_nonneg)
  from assms(2) [OF this] have "0 \<le> rnd (s + e)" by (simp add: assms(1))
  with Cons show ?case by simp
qed

lemma softmax_rounded_map:
  assumes "rnd 0 = 0" "\<And>x y. x \<le> y \<Longrightarrow> rnd x \<le> rnd y"
  shows "\<exists>f. softmax_rounded rnd v = map f v \<and> (\<forall>a b. a \<le> b \<longrightarrow> f a \<le> f b)"
proof -
  define m where "m = maximum v"
  define es where "es = map (\<lambda>a. rnd (exp (rnd (a - m)))) v"
  define r where "r = rnd (1 / foldl (\<lambda>s e. rnd (s + e)) 0 es)"
  define f where "f = (\<lambda>a. rnd (rnd (exp (rnd (a - m))) * r))"
  have pos: "0 \<le> rnd (exp z)" for z
    using assms(2) [of 0 "exp z"] by (simp add: assms(1))
  then have "\<forall>e\<in>set es. 0 \<le> e" by (auto simp: es_def)
  then have "0 \<le> foldl (\<lambda>s e. rnd (s + e)) 0 es"
    by (intro foldl_rounded_nonneg assms) simp_all
  then have "0 \<le> 1 / foldl (\<lambda>s e. rnd (s + e)) 0 es" by simp
  from assms(2) [OF this] have r: "0 \<le> r" by (simp add: r_def assms(1))
  have "f a \<le> f b" if "a \<le> b" for a b
  proof -
    from that have "a - m \<le> b - m" by simp
    then have "rnd (a - m) \<le> rnd (b - m)" by (rule assms(2))
    then have "exp (rnd (a - m)) \<le> exp (rnd (b - m))" by simp
    then have "rnd (exp (rnd (a - m))) \<le> rnd (exp (rnd (b - m)))" by (rule assms(2))
    then have "rnd (exp (rnd (a - m))) * r \<le> rnd (exp (rnd (b - m))) * r"
      using r by (rule mult_right_mono)
    then show ?thesis unfolding f_def by (rule assms(2))
  qed
  moreover have "softmax_rounded rnd v = map f v"
    by (simp add: softmax_rounded_def Let_def m_def es_def r_def f_def o_def)
  ultimately show ?thesis by blast
qed

lemma argmax_map_mono:
  assumes "\<And>a b. a \<le> b \<Longrightarrow> f a \<le> f (b::real)"
  shows "argmax (map f v) \<le> argmax v \<and> (\<forall>p\<in>set (map f v). p \<le> map f v ! argmax v)"
proof (cases "v = []")
  case True
  then show ?thesis by (simp add: argmax_def)
next
  case False
  from argmax_max [OF False] have i: "argmax v < length v" and
    mx: "\<forall>a\<in>set v. a \<le> v ! argmax v" by simp_all
  have top: "\<forall>p\<in>set (map f v). p \<le> map f v ! argmax v"
    using i mx assms by auto
  have "argmax (map f v) \<le> argmax v"
  proof (rule ccontr)
    assume "\<not> argmax (map f v) \<le> argmax v"
    then have "argmax v < argmax (map f v)" by simp
    with argmax_first [of "map f v"]
    have lt: "map f v ! argmax v < map f v ! argmax (map f v)" by blast
    from False argmax_max [of "map f v"] have "argmax (map f v) < length (map f v)" by simp
    then have "map f v ! argmax (map f v) \<in> set (map f v)" by (rule nth_mem)
    with top have "map f v ! argmax (map f v) \<le> map f v ! argmax v" by blast
    with lt show False by simp
  qed
  with top show ?thesis by blast
qed

lemma softmax_rounded_order:
  assumes "rnd 0 = 0" "\<And>x y. x \<le> y \<Longrightarrow> rnd x \<le> rnd y"
  shows "argmax (softmax_rounded rnd v) \<le> argmax v \<and>
         (\<forall>p\<in>set (softmax_rounded rnd v). p \<le> softmax_rounded rnd v ! argmax v)"
proof -
  have "\<exists>f. softmax_rounded rnd v = map f v \<and> (\<forall>a b. a \<le> b \<longrightarrow> f a \<le> f b)"
    by (rule softmax_rounded_map [where rnd = rnd]) (insert assms, auto)
  then obtain f where
    f: "softmax_rounded rnd v = map f v" and m: "\<And>a b. a \<le> b \<Longrightarrow> f a \<le> f b" by blast
  show ?thesis unfolding f by (rule argmax_map_mono) (rule m)
qed
lemma rne_nearest: "\<bar>x - of_int k\<bar> < 1 / 2 \<Longrightarrow> rne x = k"
proof -
  assume h: "\<bar>x - of_int k\<bar> < 1 / 2"
  show ?thesis
  proof (cases "of_int k \<le> x")
    case True
    with h have "\<lfloor>x\<rfloor> = k" by (intro floor_unique) linarith+
    with h True show ?thesis by (simp add: rne_def Let_def)
  next
    case False
    with h have "\<lfloor>x\<rfloor> = k - 1" by (intro floor_unique) (simp, linarith)+
    with h False show ?thesis by (auto simp: rne_def Let_def)
  qed
qed

lemma float32_small: "float32 (- (1 / 2 ^ 30)) = - (1 / 2 ^ 30)"
proof -
  have p: "(2::real) powr (- 30) = 1 / 2 ^ 30" "(2::real) powr (- 29) = 1 / 2 ^ 29"
    "(2::real) powr (- 53) = 1 / 2 ^ 53"
    by (simp_all add: powr_minus powr_numeral)
  have "float32 (1 / 2 ^ 30) =
      of_int (rne (1 / 2 ^ 30 / 2 powr (of_int (- 30) - 23))) * 2 powr (of_int (- 30) - 23)"
    by (rule float32_eval) (simp_all add: p)
  also have "1 / 2 ^ 30 / 2 powr (of_int (- 30) - 23) = (8388608::real)"
    by (simp add: p)
  also have "rne 8388608 = 8388608" by (rule rne_numeral)
  finally have "float32 (1 / 2 ^ 30) = 1 / 2 ^ 30" by (simp add: p)
  then show ?thesis by (simp only: float32_minus)
qed

lemma float32_exp_small: "float32 (exp (- (1 / 2 ^ 30))) = 1"
proof -
  define y :: real where "y = exp (- (1 / 2 ^ 30))"
  have lo: "1 - 1 / 2 ^ 30 \<le> y"
    unfolding y_def using exp_ge_add_one_self [of "- (1 / 2 ^ 30)"] by simp
  have hi: "y < 1" unfolding y_def by simp
  have p: "(2::real) powr (- 1) = 1 / 2" "(2::real) powr (- 24) = 1 / 2 ^ 24"
    by (simp_all add: powr_minus powr_numeral)
  have "float32 y = of_int (rne (y / 2 powr (of_int (- 1) - 23))) * 2 powr (of_int (- 1) - 23)"
    by (rule float32_eval) (insert lo hi, simp_all add: p)
  also have "y / 2 powr (of_int (- 1) - 23) = y * 2 ^ 24"
    by (simp add: p)
  also have "rne (y * 2 ^ 24) = 2 ^ 24"
    by (rule rne_nearest) (insert lo hi, simp)
  finally show ?thesis unfolding y_def by (simp add: p)
qed

lemma softmax_rounded_close: "softmax_rounded float32 [0, 1 / 2 ^ 30] = [1 / 2, 1 / 2]"
proof -
  have a: "float32 (- (1 / 1073741824)) = - (1 / 1073741824)"
    using float32_small by simp
  have b: "float32 (exp (- (1 / 1073741824))) = 1"
    using float32_exp_small by simp
  show ?thesis
    by (simp add: softmax_rounded_def Let_def a b float32_0 float32_one float32_two float32_half)
qed

lemma length_softmax_rounded: "length (softmax_rounded rnd v) = length v"
  by (simp add: softmax_rounded_def Let_def)

lemma softmax_rounded_same:
  assumes "rnd 0 = 0" "\<And>x y. x \<le> y \<Longrightarrow> rnd x \<le> rnd y" "no_collision rnd v"
  shows "argmax (softmax_rounded rnd v) = argmax v"
proof (cases "v = []")
  case True
  then show ?thesis by (simp add: softmax_rounded_def argmax_def)
next
  case False
  define p where "p = softmax_rounded rnd v"
  have len: "length p = length v" by (simp add: p_def length_softmax_rounded)
  with False have pne: "p \<noteq> []" by auto
  have ord: "argmax p \<le> argmax v" and top: "\<forall>q\<in>set p. q \<le> p ! argmax v"
    unfolding p_def using softmax_rounded_order [of rnd v] assms(1,2) by blast+
  from argmax_max [OF False] have iv: "argmax v < length v" by simp
  from argmax_max [OF pne] have ip: "argmax p < length p" and
    mx: "\<forall>q\<in>set p. q \<le> p ! argmax p" by simp_all
  from ip top have "p ! argmax p \<le> p ! argmax v" by simp
  moreover from iv len mx have "p ! argmax v \<le> p ! argmax p" by simp
  ultimately have "p ! argmax p = p ! argmax v" by simp
  with assms(3) ip len have eq: "v ! argmax p = v ! argmax v"
    by (simp add: no_collision_def p_def)
  have "\<not> argmax p < argmax v"
  proof
    assume "argmax p < argmax v"
    with argmax_first [of v] have "v ! argmax p < v ! argmax v" by blast
    with eq show False by simp
  qed
  with ord show ?thesis by (simp add: p_def)
qed

lemma count_correct_rounded:
  assumes "rnd 0 = 0" "\<And>x y. x \<le> y \<Longrightarrow> rnd x \<le> rnd y" "list_all (no_collision rnd) x"
  shows "count_correct (softmax_dim1_rounded rnd (T2 x)) t = count_correct (T2 x) t"
proof -
  have ne: "list_all (\<lambda>r. r \<noteq> []) (map (softmax_rounded rnd) x) = list_all (\<lambda>r. r \<noteq> []) x"
    by (simp add: list_all_iff softmax_rounded_def Let_def)
  have m: "map argmax (map (softmax_rounded rnd) x) = map argmax x"
    using assms(3) softmax_rounded_same [of rnd] assms(1,2) by (simp add: list_all_iff)
  have "max_dim1 (T2 (map (softmax_rounded rnd) x)) = max_dim1 (T2 x)"
    unfolding max_dim1.simps ne m ..
  then show ?thesis
    unfolding count_correct_def softmax_dim1_rounded.simps by (rule arg_cong)
qed

lemma float32_three_halves: "float32 (3 / 2) = 3 / 2"
proof -
  have p: "(2::real) powr (- 23) = 1 / 2 ^ 23"
    by (simp add: powr_minus powr_numeral)
  have "float32 (3 / 2) = of_int (rne (3 / 2 / 2 powr (of_int 0 - 23))) * 2 powr (of_int 0 - 23)"
    by (rule float32_eval) simp_all
  also have "3 / 2 / 2 powr (of_int 0 - 23) = (12582912::real)"
    by (simp add: p)
  also have "rne 12582912 = 12582912" by (rule rne_numeral)
  finally show ?thesis by (simp add: p)
qed

lemma float32_five_eighths: "float32 (5 / 8) = 5 / 8"
proof -
  have p: "(2::real) powr (- 24) = 1 / 2 ^ 24" "(2::real) powr (- 1) = 1 / 2"
    by (simp_all add: powr_minus powr_numeral)
  have "float32 (5 / 8) =
      of_int (rne (5 / 8 / 2 powr (of_int (- 1) - 23))) * 2 powr (of_int (- 1) - 23)"
    by (rule float32_eval) (simp_all add: p)
  also have "5 / 8 / 2 powr (of_int (- 1) - 23) = (10485760::real)"
    by (simp add: p)
  also have "rne 10485760 = 10485760" by (rule rne_numeral)
  finally show ?thesis by (simp add: p)
qed

lemma softmax_rounded_apart:
  "\<exists>p0 p1. softmax_rounded float32 [0, 1] = [p0, p1] \<and> p0 \<le> 1 / 2 \<and> 5 / 8 \<le> p1"
proof -
  define e0 where "e0 = float32 (exp (- 1))"
  define S where "S = float32 (float32 (0 + e0) + 1)"
  define r where "r = float32 (1 / S)"
  have "(2::real) \<le> exp 1" using exp_ge_add_one_self [of 1] by simp
  then have "exp (- 1) \<le> (1 / 2 :: real)"
    by (simp add: exp_minus inverse_eq_divide field_simps)
  from float32_mono [OF this] have e0h: "e0 \<le> 1 / 2" by (simp add: e0_def float32_half)
  have e0l: "0 \<le> e0" unfolding e0_def by (rule float32_nonneg) simp
  from float32_mono [OF e0h] have i0h: "float32 e0 \<le> 1 / 2" by (simp add: float32_half)
  from float32_nonneg [OF e0l] have i0l: "0 \<le> float32 e0" .
  have "float32 1 \<le> float32 (float32 e0 + 1)" by (rule float32_mono) (insert i0l, simp)
  then have Sl: "1 \<le> S" by (simp add: S_def float32_one)
  have "float32 (float32 e0 + 1) \<le> float32 (3 / 2)" by (rule float32_mono) (insert i0h, simp)
  then have Sh: "S \<le> 3 / 2" by (simp add: S_def float32_three_halves)
  from Sl Sh have "5 / 8 \<le> 1 / S" "1 / S \<le> 1" by (simp_all add: field_simps)
  then have "float32 (5 / 8) \<le> float32 (1 / S)" "float32 (1 / S) \<le> float32 1"
    by (simp_all add: float32_mono)
  then have rl: "5 / 8 \<le> r" and rh: "r \<le> 1"
    by (simp_all add: r_def float32_five_eighths float32_one)
  have "e0 * r \<le> 1 / 2 * 1"
    by (rule mult_mono) (insert e0h rh e0l rl, simp_all)
  then have "float32 (e0 * r) \<le> float32 (1 / 2)" by (simp add: float32_mono)
  then have p0: "float32 (e0 * r) \<le> 1 / 2" by (simp add: float32_half)
  from float32_mono [OF rl] have p1: "5 / 8 \<le> float32 r" by (simp add: float32_five_eighths)
  have m1: "float32 (- 1) = - 1" by (simp only: float32_minus float32_one)
  have "softmax_rounded float32 [0, 1] = [float32 (e0 * r), float32 r]"
    by (simp add: softmax_rounded_def Let_def m1 float32_0 float32_one e0_def S_def r_def)
  with p0 p1 show ?thesis by blast
qed

lemma no_collision_apart: "no_collision float32 [0, 1]"
proof -
  from softmax_rounded_apart obtain p0 p1 where
    p: "softmax_rounded float32 [0, 1] = [p0, p1]" and "p0 \<le> 1 / 2" "5 / 8 \<le> p1" by blast
  then have ne: "p0 \<noteq> p1" by simp
  have a: "argmax [0, 1 :: real] = 1" by (simp add: argmax_def)
  show ?thesis
    unfolding no_collision_def a p using ne by (auto simp: less_Suc_eq)
qed

lemma no_collision_exact: "no_collision id v"
proof (cases "v = []")
  case True
  then show ?thesis by (simp add: no_collision_def)
next
  case False
  have S: "0 < sum_list (map exp v)" by (rule sum_exp_pos [OF False])
  have "v ! i = v ! argmax v"
    if "i < length v" "softmax v ! i = softmax v ! argmax v" for i
  proof -
    from argmax_max [OF False] have "argmax v < length v" by simp
    with that have "exp (v ! i) / sum_list (map exp v) = exp (v ! argmax v) / sum_list (map exp v)"
      by (simp add: softmax_def)
    with S show ?thesis by simp
  qed
  then show ?thesis by (simp add: no_collision_def softmax_rounded_id)
qed

text \<open>
  Claim C10, as the code has it. Softmax computed with a rounding that is monotone and
  keeps zero, as float32 rounding to nearest is, keeps the order of the scores weakly:
  a largest score gets a largest probability, and the first largest probability stands
  at or before the first largest score. The two stand at the same index when no entry
  shares the probability of the largest score without sharing its score
  (\<open>no_collision\<close>); for a batch of rank-2 outputs all of whose rows are such, the
  count of correct predictions is the same from the scores and from the probabilities.
  In exact arithmetic no row has a collision: the index of the first largest entry of
  a score vector is the same before and after softmax, so are the predictions read off
  a whole output tensor along dimension 1, and \<open>test_model\<close> returns the same
  result, accuracy or error, for a classifier whose forward pass ends in softmax
  (\<open>forward\<close>) and for the same classifier returning the output of its layer stack
  (\<open>forward_logits\<close>).
\<close>

theorem argmax_softmax_order:
  "(rnd 0 = 0 \<and> (\<forall>a b. a \<le> b \<longrightarrow> rnd a \<le> rnd b) \<longrightarrow>
      argmax (softmax_rounded rnd v) \<le> argmax v \<and>
      (\<forall>p\<in>set (softmax_rounded rnd v). p \<le> softmax_rounded rnd v ! argmax v) \<and>
      (no_collision rnd v \<longrightarrow> argmax (softmax_rounded rnd v) = argmax v) \<and>
      (list_all (no_collision rnd) rows \<longrightarrow>
         count_correct (softmax_dim1_rounded rnd (T2 rows)) labels =
         count_correct (T2 rows) labels)) \<and>
   no_collision id v \<and>
   softmax_rounded id v = softmax v \<and>
   forward_rounded id = forward \<and>
   argmax (softmax v) = argmax v \<and>
   max_dim1 (softmax_dim1 t) = max_dim1 t \<and>
   test_model forward w l epoch = test_model forward_logits w l epoch"
proof -
  have "epoch_correct forward (w\<lparr>model := (model w)\<lparr>training := False\<rparr>, grad_enabled := False\<rparr>)
          (batches l) =
        epoch_correct forward_logits
          (w\<lparr>model := (model w)\<lparr>training := False\<rparr>, grad_enabled := False\<rparr>) (batches l)"
    by (rule epoch_correct_logits) simp
  then have a: "test_model forward w l epoch = test_model forward_logits w l epoch"
    by (simp add: test_model_def Let_def test_loop_epoch_correct)
  have b: "argmax (softmax_rounded rnd v) \<le> argmax v \<and>
      (\<forall>p\<in>set (softmax_rounded rnd v). p \<le> softmax_rounded rnd v ! argmax v)"
    if "rnd 0 = 0" "\<forall>a b. a \<le> b \<longrightarrow> rnd a \<le> rnd b"
    by (rule softmax_rounded_order) (insert that, auto)
  have c: "argmax (softmax_rounded rnd v) = argmax v"
    if "rnd 0 = 0" "\<forall>a b. a \<le> b \<longrightarrow> rnd a \<le> rnd b" "no_collision rnd v"
    by (rule softmax_rounded_same) (insert that, auto)
  have d: "count_correct (softmax_dim1_rounded rnd (T2 rows)) labels =
         count_correct (T2 rows) labels"
    if "rnd 0 = 0" "\<forall>a b. a \<le> b \<longrightarrow> rnd a \<le> rnd b" "list_all (no_collision rnd) rows"
    by (rule count_correct_rounded) (insert that, auto)
  have e: "forward_rounded id = forward"
    by (intro ext) (rule forward_rounded_id)
  from a b c d e show ?thesis
    using softmax_rounded_id argmax_softmax max_dim1_softmax no_collision_exact by blast
qed

text \<open>
  float32 rounding is monotone and keeps zero, and on the scores 0 and 1 it gives the
  larger score a probability of at least 5/8 and the smaller at most 1/2: no collision,
  the predicted class is 1 from scores and probabilities alike. In exact arithmetic the
  predictions on the scores 2, 5, 1 agree, and so does the evaluation of the classifier
  with dropout over two batches.
\<close>

theorem argmax_softmax_order_witness:
  "float32 0 = 0 \<and> mono float32 \<and>
   no_collision float32 [0, 1] \<and> list_all (no_collision float32) [[0, 1]] \<and>
   argmax (softmax_rounded float32 [0, 1]) = 1 \<and>
   list_all (\<lambda>p. p \<le> softmax_rounded float32 [0, 1] ! 1) (softmax_rounded float32 [0, 1]) \<and>
   count_correct (softmax_dim1_rounded float32 (T2 [[0, 1]])) [1] = Inr 1 \<and>
   argmax (softmax [0, 1]) = 1 \<and>
   max_dim1 (softmax_dim1 (T2 [[2, 5, 1]])) = Inr [1] \<and>
   test_model forward_logits (fresh_world drop_net g0) demo_loader 0 =
     Inr (1 / 2, (fresh_world drop_net g0)\<lparr>model := drop_net\<lparr>training := False\<rparr>\<rparr>)"
proof -
  have m: "\<forall>a b. a \<le> b \<longrightarrow> float32 a \<le> float32 b"
    using float32_mono by blast
  have a: "argmax [0, 1 :: real] = 1" by (simp add: argmax_def)
  have n: "no_collision float32 [0, 1]" by (rule no_collision_apart)
  then have ns: "list_all (no_collision float32) [[0, 1]]" by simp
  from argmax_softmax_order [of float32 "[0, 1]" "[[0, 1]]" "[1]" "T2 [[2, 5, 1]]"
      "fresh_world drop_net g0" demo_loader 0] m float32_0 n ns
  have "argmax (softmax_rounded float32 [0, 1]) = argmax [0, 1]"
    "\<forall>p\<in>set (softmax_rounded float32 [0, 1]).
        p \<le> softmax_rounded float32 [0, 1] ! argmax [0, 1]"
    "count_correct (softmax_dim1_rounded float32 (T2 [[0, 1]])) [1] =
       count_correct (T2 [[0, 1]]) [1]"
    "argmax (softmax [0, 1]) = argmax [0, 1]"
    "max_dim1 (softmax_dim1 (T2 [[2, 5, 1]])) = max_dim1 (T2 [[2, 5, 1]])"
    "test_model forward (fresh_world drop_net g0) demo_loader 0 =
     test_model forward_logits (fresh_world drop_net g0) demo_loader 0"
    by blast+
  then have
    "argmax (softmax_rounded float32 [0, 1]) = 1"
    "list_all (\<lambda>p. p \<le> softmax_rounded float32 [0, 1] ! 1) (softmax_rounded float32 [0, 1])"
    "count_correct (softmax_dim1_rounded float32 (T2 [[0, 1]])) [1] = Inr 1"
    "argmax (softmax [0, 1]) = 1"
    "max_dim1 (softmax_dim1 (T2 [[2, 5, 1]])) = Inr [1]"
    "test_model forward_logits (fresh_world drop_net g0) demo_loader 0 =
     Inr (1 / 2, (fresh_world drop_net g0)\<lparr>model := drop_net\<lparr>training := False\<rparr>\<rparr>)"
    using drop_net_run unfolding a list_all_iff
    by (simp_all add: argmax_def count_correct_def)
  moreover have "mono float32"
    by (rule monoI) (rule float32_mono)
  ultimately show ?thesis using float32_0 n ns by blast
qed



text \<open>
  The claim as stated fails in the arithmetic of the program. The scores 0 and
  \<open>1 / 2 ^ 30\<close> are different and the second is the larger, but float32 softmax
  gives both the probability one half: the exponential of \<open>- 1 / 2 ^ 30\<close> rounds to
  1. The first largest probability is at index 0, and on the one example labelled 1 the
  evaluation loop returns accuracy 1 from the scores and accuracy 0 from the
  probabilities.
\<close>

theorem float32_softmax_moves_argmax:
  "argmax [0, 1 / 2 ^ 30] = 1 \<and>
   softmax_rounded float32 [0, 1 / 2 ^ 30] = [1 / 2, 1 / 2] \<and>
   argmax (softmax_rounded float32 [0, 1 / 2 ^ 30]) = 0 \<and>
   test_model forward_logits (fresh_world tiny_net g0) close_loader 0 =
     Inr (1, fresh_world tiny_net g0) \<and>
   test_model (forward_rounded float32) (fresh_world tiny_net g0) close_loader 0 =
     Inr (0, fresh_world tiny_net g0)"
proof -
  have c: "softmax_rounded float32 [0, 1 / 1073741824] = [1 / 2, 1 / 2]"
    using softmax_rounded_close by simp
  show ?thesis
    by (simp add: c test_model_def close_loader_def fresh_world_def tiny_net_def
        forward_logits_def forward_rounded_def count_correct_def argmax_def)
qed

section \<open>Initialisation of the dense classifier\<close>

lemma advance_advance: "advance a (advance b g) = advance (b + a) g"
  by (simp add: advance_def add.assoc fun_eq_iff add.commute add.left_commute)

lemma advance_0: "advance 0 g = g"
  by (simp add: advance_def)

lemma draws_eq: "draws n g = (map g [0..<n], advance n g)"
  by (simp add: draws_def advance_def)

lemma uniform_vec_eq:
  "uniform_vec lo hi n g = (map (\<lambda>i. lo + (hi - lo) * g i) [0..<n], advance n g)"
  by (simp add: uniform_vec_def draws_eq o_def)

lemma map_accum_uniform:
  "snd (map_accum (\<lambda>g' _. uniform_vec lo hi c g') g xs) = advance (length xs * c) g \<and>
   list_all (\<lambda>r. length r = c) (fst (map_accum (\<lambda>g' _. uniform_vec lo hi c g') g xs))"
proof (induction xs arbitrary: g)
  case Nil
  show ?case by (simp add: advance_0)
next
  case (Cons x xs)
  obtain ys s where r: "map_accum (\<lambda>g' _. uniform_vec lo hi c g') (advance c g) xs = (ys, s)"
    by (cases "map_accum (\<lambda>g' _. uniform_vec lo hi c g') (advance c g) xs")
  from Cons [of "advance c g"] r have "s = advance (length xs * c) (advance c g)"
    "list_all (\<lambda>r. length r = c) ys" by simp_all
  moreover have u: "uniform_vec lo hi c g = (map (\<lambda>i. lo + (hi - lo) * g i) [0..<c], advance c g)"
    by (rule uniform_vec_eq)
  ultimately show ?case
    by (simp add: u r advance_advance)
qed

lemma uniform_mat_gen: "snd (uniform_mat lo hi rows cols g) = advance (rows * cols) g"
  using map_accum_uniform [of lo hi cols g "[0..<rows]"] by (simp add: uniform_mat_def)

lemma uniform_mat_shape: "is_matrix rows cols (fst (uniform_mat lo hi rows cols g))"
  using map_accum_uniform [of lo hi cols g "[0..<rows]"]
  by (simp add: uniform_mat_def is_matrix_def map_accum_length)

lemma new_Linear_gen: "snd (new_Linear n m g) = advance (m * n + m) g"
proof -
  obtain W g1 where a: "uniform_mat (- (1 / sqrt (real n))) (1 / sqrt (real n)) m n g = (W, g1)"
    by (cases "uniform_mat (- (1 / sqrt (real n))) (1 / sqrt (real n)) m n g")
  then have "g1 = advance (m * n) g"
    using uniform_mat_gen [of "- (1 / sqrt (real n))" "1 / sqrt (real n)" m n g] by simp
  then show ?thesis
    by (simp add: new_Linear_def Let_def a uniform_vec_eq advance_advance)
qed

lemma new_Linear_fst:
  "\<exists>W b. fst (new_Linear n m g) = Linear n m W (Some b) \<and> length b = m"
  by (simp add: new_Linear_def Let_def uniform_vec_eq split: prod.splits)

lemma new_Linear_eq:
  "\<exists>W b. new_Linear n m g = (Linear n m W (Some b), advance (m * n + m) g) \<and> length b = m"
  using new_Linear_fst [of n m g] new_Linear_gen [of n m g]
  by (metis prod.collapse)

lemma reset_module_Linear:
  "length b = m \<Longrightarrow>
   reset_module g (Linear n m W (Some b)) =
     (Linear n m (fst (xavier_uniform n m g)) (Some (replicate m 0)), advance (m * n) g)"
proof -
  assume len: "length b = m"
  have z: "map (\<lambda>_. 0::real) b = replicate m 0"
    using len by (simp add: map_replicate_const)
  have "snd (xavier_uniform n m g) = advance (m * n) g"
    by (simp add: xavier_uniform_def Let_def uniform_mat_gen)
  then show ?thesis
    by (cases "xavier_uniform n m g") (simp add: z)
qed

lemma draws_in_range:
  assumes "\<And>i. 0 \<le> g i \<and> g i \<le> 1" "0 \<le> a"
  shows "list_all (\<lambda>v. - a \<le> v \<and> v \<le> a) (fst (uniform_vec (- a) a n g))"
proof -
  have "- a \<le> - a + (a - - a) * u \<and> - a + (a - - a) * u \<le> a" if "0 \<le> u" "u \<le> 1" for u :: real
  proof -
    have "0 \<le> 2 * a * u" using that assms(2) by simp
    moreover have "2 * a * u \<le> 2 * a * 1"
      by (rule mult_left_mono) (use that assms(2) in simp_all)
    ultimately show ?thesis by (simp add: algebra_simps)
  qed
  then have "\<forall>i. - a \<le> - a + (a - - a) * g i \<and> - a + (a - - a) * g i \<le> a"
    using assms(1) by blast
  then show ?thesis
    unfolding uniform_vec_eq fst_conv list_all_iff by auto
qed

lemma map_accum_within:
  assumes "\<And>i. 0 \<le> g i \<and> g i \<le> 1" "0 \<le> a"
  shows "list_all (list_all (\<lambda>v. - a \<le> v \<and> v \<le> a))
           (fst (map_accum (\<lambda>g' _. uniform_vec (- a) a c g') g xs))"
  using assms(1)
proof (induction xs arbitrary: g)
  case Nil
  show ?case by simp
next
  case (Cons x xs)
  have adv: "0 \<le> advance c g i \<and> advance c g i \<le> 1" for i
    using Cons.prems by (simp add: advance_def)
  obtain ys s where r: "map_accum (\<lambda>g' _. uniform_vec (- a) a c g') (advance c g) xs = (ys, s)"
    by (cases "map_accum (\<lambda>g' _. uniform_vec (- a) a c g') (advance c g) xs")
  from Cons.IH [of "advance c g"] adv r
  have "list_all (list_all (\<lambda>v. - a \<le> v \<and> v \<le> a)) ys" by simp
  moreover obtain v where u: "uniform_vec (- a) a c g = (v, advance c g)"
    by (simp add: uniform_vec_eq)
  moreover have "list_all (\<lambda>v. - a \<le> v \<and> v \<le> a) (fst (uniform_vec (- a) a c g))"
    by (rule draws_in_range) (use Cons.prems assms(2) in auto)
  ultimately show ?case
    by (simp add: r)
qed

lemma xavier_uniform_within:
  assumes "\<And>i. 0 \<le> g i \<and> g i \<le> 1"
  shows "entries_within (xavier_bound n m) (fst (xavier_uniform n m g))"
  unfolding entries_within_def xavier_uniform_def xavier_bound_def Let_def uniform_mat_def
  by (rule map_accum_within) (use assms in auto)

lemma xavier_uniform_shape: "is_matrix m n (fst (xavier_uniform n m g))"
  by (simp add: xavier_uniform_def Let_def uniform_mat_shape)

lemma SimpleFCNet_init_layers:
  "SimpleFCNet_init input_shape num_classes g =
     Inr (\<lparr>layers =
            [Flatten,
             Linear 784 128
               (fst (xavier_uniform 784 128 (advance (default_draws num_classes) g)))
               (Some (replicate 128 0)),
             ReLU,
             Linear 128 64
               (fst (xavier_uniform 128 64 (advance (default_draws num_classes + 128 * 784) g)))
               (Some (replicate 64 0)),
             ReLU,
             Linear 64 num_classes
               (fst (xavier_uniform 64 num_classes
                  (advance (default_draws num_classes + 128 * 784 + 64 * 128) g)))
               (Some (replicate num_classes 0))],
           training = True\<rparr>,
          advance (default_draws num_classes + 128 * 784 + 64 * 128 + num_classes * 64) g)"
proof -
  obtain W1 b1 g1 where l1: "new_Linear 784 128 g = (Linear 784 128 W1 (Some b1), g1)"
    and b1: "length b1 = 128" and g1: "g1 = advance (128 * 784 + 128) g"
    using new_Linear_eq [of 784 128 g] by blast
  obtain W2 b2 g2 where l2: "new_Linear 128 64 g1 = (Linear 128 64 W2 (Some b2), g2)"
    and b2: "length b2 = 64" and g2: "g2 = advance (64 * 128 + 64) g1"
    using new_Linear_eq [of 128 64 g1] by blast
  obtain W3 b3 g3 where l3: "new_Linear 64 num_classes g2 = (Linear 64 num_classes W3 (Some b3), g3)"
    and b3: "length b3 = num_classes" and g3: "g3 = advance (num_classes * 64 + num_classes) g2"
    using new_Linear_eq [of 64 num_classes g2] by blast
  have d: "g3 = advance (default_draws num_classes) g"
    unfolding g3 g2 g1 advance_advance default_draws_def by (simp add: add.assoc)
  have rp: "reset_params
      [Flatten, Linear 784 128 W1 (Some b1), ReLU, Linear 128 64 W2 (Some b2), ReLU,
       Linear 64 num_classes W3 (Some b3)] g3 =
     ([Flatten,
       Linear 784 128 (fst (xavier_uniform 784 128 g3)) (Some (replicate 128 0)),
       ReLU,
       Linear 128 64 (fst (xavier_uniform 128 64 (advance (128 * 784) g3)))
         (Some (replicate 64 0)),
       ReLU,
       Linear 64 num_classes
         (fst (xavier_uniform 64 num_classes (advance (64 * 128) (advance (128 * 784) g3))))
         (Some (replicate num_classes 0))],
      advance (num_classes * 64) (advance (64 * 128) (advance (128 * 784) g3)))"
    by (simp add: reset_params_def reset_module_Linear [OF b1] reset_module_Linear [OF b2]
        reset_module_Linear [OF b3] del: reset_module.simps(1))
  have "SimpleFCNet_init input_shape num_classes g =
     Inr (\<lparr>layers =
            [Flatten,
             Linear 784 128 (fst (xavier_uniform 784 128 g3)) (Some (replicate 128 0)),
             ReLU,
             Linear 128 64 (fst (xavier_uniform 128 64 (advance (128 * 784) g3)))
               (Some (replicate 64 0)),
             ReLU,
             Linear 64 num_classes
               (fst (xavier_uniform 64 num_classes (advance (64 * 128) (advance (128 * 784) g3))))
               (Some (replicate num_classes 0))],
           training = True\<rparr>,
          advance (num_classes * 64) (advance (64 * 128) (advance (128 * 784) g3)))"
    by (simp only: SimpleFCNet_init_def l1 l2 l3 prod.case rp)
  then show ?thesis
    unfolding d advance_advance by (simp only: add.assoc)
qed

lemma map_accum_uniform_nth:
  "i < length xs \<Longrightarrow>
   fst (map_accum (\<lambda>g' _. uniform_vec lo hi c g') g xs) ! i =
     map (\<lambda>j. lo + (hi - lo) * g (i * c + j)) [0..<c]"
proof (induction xs arbitrary: g i)
  case Nil
  then show ?case by simp
next
  case (Cons x xs)
  obtain ys s where r: "map_accum (\<lambda>g' _. uniform_vec lo hi c g') (advance c g) xs = (ys, s)"
    by (cases "map_accum (\<lambda>g' _. uniform_vec lo hi c g') (advance c g) xs")
  have u: "uniform_vec lo hi c g = (map (\<lambda>j. lo + (hi - lo) * g j) [0..<c], advance c g)"
    by (rule uniform_vec_eq)
  show ?case
  proof (cases i)
    case 0
    then show ?thesis by (simp add: u r)
  next
    case (Suc k)
    with Cons.prems have k: "k < length xs" by simp
    from Cons.IH [OF k, of "advance c g"] r
    have "ys ! k = map (\<lambda>j. lo + (hi - lo) * advance c g (k * c + j)) [0..<c]" by simp
    also have "\<dots> = map (\<lambda>j. lo + (hi - lo) * g (Suc k * c + j)) [0..<c]"
      by (simp add: advance_def add.assoc add.commute add.left_commute)
    finally show ?thesis by (simp add: u r Suc)
  qed
qed

lemma xavier_uniform_nth:
  assumes "i < m" "j < n"
  shows "fst (xavier_uniform n m g) ! i ! j = xavier_bound n m * (2 * g (i * n + j) - 1)"
proof -
  have "fst (xavier_uniform n m g) ! i =
      map (\<lambda>j. - xavier_bound n m + (xavier_bound n m - - xavier_bound n m) * g (i * n + j)) [0..<n]"
    unfolding xavier_uniform_def Let_def uniform_mat_def xavier_bound_def
    by (rule map_accum_uniform_nth) (insert assms, simp)
  with assms show ?thesis by (simp add: algebra_simps)
qed

lemma ramp_range: "0 \<le> ramp i \<and> ramp i \<le> 1"
  by (simp add: ramp_def)

text \<open>
  Claim C9. \<open>SimpleFCNet_init\<close> returns the stack Flatten, Linear 784 to 128, ReLU,
  Linear 128 to 64, ReLU, Linear 64 to \<open>num_classes\<close>, in which every bias is the zero
  vector and every weight is what \<open>xavier_uniform\<close> draws for it, in layer order, from
  the generator as the construction of the layers left it. The generator ends advanced
  by the draws of that construction and by one draw for each weight entry, which is one
  run of the initialisation. What \<open>xavier_uniform\<close> draws for an \<open>[m, n]\<close> weight
  is an \<open>m\<close> by \<open>n\<close> matrix whose entry in row \<open>i\<close> and column \<open>j\<close> is the draw
  number \<open>i * n + j\<close> of the generator, carried from \<open>[0, 1]\<close> onto
  \<open>[- a, a]\<close> with \<open>a = sqrt (6 / (n + m))\<close> by \<open>u \<mapsto> a * (2 * u - 1)\<close>: each
  entry has a draw of its own, and lies between \<open>- a\<close> and \<open>a\<close> when the draws lie
  between 0 and 1.
\<close>

theorem SimpleFCNet_init_params:
  "SimpleFCNet_init input_shape num_classes g =
     Inr (\<lparr>layers =
            [Flatten,
             Linear 784 128
               (fst (xavier_uniform 784 128 (advance (default_draws num_classes) g)))
               (Some (replicate 128 0)),
             ReLU,
             Linear 128 64
               (fst (xavier_uniform 128 64 (advance (default_draws num_classes + 128 * 784) g)))
               (Some (replicate 64 0)),
             ReLU,
             Linear 64 num_classes
               (fst (xavier_uniform 64 num_classes
                  (advance (default_draws num_classes + 128 * 784 + 64 * 128) g)))
               (Some (replicate num_classes 0))],
           training = True\<rparr>,
          advance (default_draws num_classes + 128 * 784 + 64 * 128 + num_classes * 64) g) \<and>
   is_matrix m n (fst (xavier_uniform n m g')) \<and>
   (\<forall>i<m. \<forall>j<n.
      fst (xavier_uniform n m g') ! i ! j = xavier_bound n m * (2 * g' (i * n + j) - 1)) \<and>
   ((\<forall>i. 0 \<le> g' i \<and> g' i \<le> 1) \<longrightarrow>
      entries_within (xavier_bound n m) (fst (xavier_uniform n m g')))"
  using SimpleFCNet_init_layers xavier_uniform_shape xavier_uniform_within xavier_uniform_nth
  by blast

text \<open>
  The default configuration, 28 by 28 inputs and 10 classes, with the generator whose
  draws rise: the first weight takes the draws from number 109386 on, the ones left by
  the construction of the layers, and its entries differ from one another.
\<close>

theorem SimpleFCNet_init_params_witness:
  "(\<forall>i. 0 \<le> advance (default_draws 10) ramp i \<and> advance (default_draws 10) ramp i \<le> 1) \<and>
   entries_within (xavier_bound 784 128)
     (fst (xavier_uniform 784 128 (advance (default_draws 10) ramp))) \<and>
   is_matrix 128 784 (fst (xavier_uniform 784 128 (advance (default_draws 10) ramp))) \<and>
   fst (xavier_uniform 784 128 (advance (default_draws 10) ramp)) ! 0 ! 0 =
     xavier_bound 784 128 * (2 * (109386 / 109387) - 1) \<and>
   fst (xavier_uniform 784 128 (advance (default_draws 10) ramp)) ! 0 ! 1 =
     xavier_bound 784 128 * (2 * (109387 / 109388) - 1) \<and>
   fst (xavier_uniform 784 128 (advance (default_draws 10) ramp)) ! 1 ! 0 =
     xavier_bound 784 128 * (2 * (110170 / 110171) - 1) \<and>
   SimpleFCNet_init (28, 28) 10 ramp =
     Inr (\<lparr>layers =
            [Flatten,
             Linear 784 128
               (fst (xavier_uniform 784 128 (advance (default_draws 10) ramp)))
               (Some (replicate 128 0)),
             ReLU,
             Linear 128 64
               (fst (xavier_uniform 128 64 (advance (default_draws 10 + 128 * 784) ramp)))
               (Some (replicate 64 0)),
             ReLU,
             Linear 64 10
               (fst (xavier_uniform 64 10 (advance (default_draws 10 + 128 * 784 + 64 * 128) ramp)))
               (Some (replicate 10 0))],
           training = True\<rparr>,
          advance (default_draws 10 + 128 * 784 + 64 * 128 + 10 * 64) ramp)"
proof -
  let ?g = "advance (default_draws 10) ramp"
  have r: "\<forall>i. 0 \<le> ?g i \<and> ?g i \<le> 1"
    by (simp add: advance_def ramp_range)
  have v: "?g (0 * 784 + 0) = 109386 / 109387" "?g (0 * 784 + 1) = 109387 / 109388"
    "?g (1 * 784 + 0) = 110170 / 110171"
    by (simp_all add: advance_def ramp_def default_draws_def)
  have b: "(0::nat) < 128" "(1::nat) < 128" "(0::nat) < 784" "(1::nat) < 784" by simp_all
  from SimpleFCNet_init_params [of "(28, 28)" 10 ramp 128 784 ?g] r
  have t: "SimpleFCNet_init (28, 28) 10 ramp =
     Inr (\<lparr>layers =
            [Flatten,
             Linear 784 128
               (fst (xavier_uniform 784 128 (advance (default_draws 10) ramp)))
               (Some (replicate 128 0)),
             ReLU,
             Linear 128 64
               (fst (xavier_uniform 128 64 (advance (default_draws 10 + 128 * 784) ramp)))
               (Some (replicate 64 0)),
             ReLU,
             Linear 64 10
               (fst (xavier_uniform 64 10 (advance (default_draws 10 + 128 * 784 + 64 * 128) ramp)))
               (Some (replicate 10 0))],
           training = True\<rparr>,
          advance (default_draws 10 + 128 * 784 + 64 * 128 + 10 * 64) ramp)"
    and s: "is_matrix 128 784 (fst (xavier_uniform 784 128 ?g))"
    and e: "\<forall>i<128. \<forall>j<784.
      fst (xavier_uniform 784 128 ?g) ! i ! j = xavier_bound 784 128 * (2 * ?g (i * 784 + j) - 1)"
    and w: "entries_within (xavier_bound 784 128) (fst (xavier_uniform 784 128 ?g))"
    by blast+
  from e b have
    "fst (xavier_uniform 784 128 ?g) ! 0 ! 0 = xavier_bound 784 128 * (2 * ?g (0 * 784 + 0) - 1)"
    "fst (xavier_uniform 784 128 ?g) ! 0 ! 1 = xavier_bound 784 128 * (2 * ?g (0 * 784 + 1) - 1)"
    "fst (xavier_uniform 784 128 ?g) ! 1 ! 0 = xavier_bound 784 128 * (2 * ?g (1 * 784 + 0) - 1)"
    by blast+
  then have x: 
    "fst (xavier_uniform 784 128 ?g) ! 0 ! 0 = xavier_bound 784 128 * (2 * (109386 / 109387) - 1)"
    "fst (xavier_uniform 784 128 ?g) ! 0 ! 1 = xavier_bound 784 128 * (2 * (109387 / 109388) - 1)"
    "fst (xavier_uniform 784 128 ?g) ! 1 ! 0 = xavier_bound 784 128 * (2 * (110170 / 110171) - 1)"
    unfolding v by blast+
  from r w s x t show ?thesis by blast
qed


section \<open>The forward pass of the dense classifier\<close>

lemma length_affine: "length (affine W (Some b) v) = min (length W) (length b)"
  by (simp add: affine_def)

lemma length_concat_rect:
  "length m = h \<Longrightarrow> list_all (\<lambda>r. length r = w) m \<Longrightarrow> length (concat m) = h * w"
  by (induction m arbitrary: h) auto

lemma has_shape3_flat:
  "has_shape (T3 x) [B, H, W] \<Longrightarrow> list_all (\<lambda>m. length (concat m) = H * W) x"
  by (auto simp: list_all_iff length_concat_rect)

lemma fc_seq_forward:
  assumes "length W1 = 128" "length b1 = 128" "length W2 = 64" "length b2 = 64"
    and x: "list_all (\<lambda>m. length (concat m) = 784) x"
  shows "seq_forward tr g
      [Flatten, Linear 784 128 W1 (Some b1), ReLU, Linear 128 64 W2 (Some b2), ReLU,
       Linear 64 nc W3 (Some b3)] (T3 x) =
    Inr (T2 (map (\<lambda>m. affine W3 (Some b3) (map (max 0) (affine W2 (Some b2)
              (map (max 0) (affine W1 (Some b1) (concat m)))))) x),
         [Flatten, Linear 784 128 W1 (Some b1), ReLU, Linear 128 64 W2 (Some b2), ReLU,
          Linear 64 nc W3 (Some b3)], g)"
proof -
  have a: "list_all (\<lambda>r. length r = 784) (map concat x)"
    using x by (simp add: list_all_iff)
  have b: "\<forall>m\<in>set x. length (concat m) = 784"
    using x by (simp add: list_all_iff)
  show ?thesis
    by (simp add: a b assms(1-4) length_affine list_all_iff o_def)
qed

lemma fc_seq_forward_mismatch:
  assumes "\<not> list_all (\<lambda>m. length (concat m) = 784) x"
  shows "seq_forward tr g (Flatten # Linear 784 m W b # rest) (T3 x) = Inl RuntimeError"
proof -
  have a: "\<not> list_all (\<lambda>r. length r = 784) (map concat x)"
    using assms by (simp add: list_all_iff)
  show ?thesis
    by (simp add: a)
qed

lemma SimpleFCNet_forward_shape:
  assumes arch: "is_SimpleFCNet nc (layers (model w))"
    and shape: "has_shape (T3 x) [B, H, W]"
  shows "(H * W = 784 \<longrightarrow> (\<exists>y w'. forward w (T3 x) = Inr (T2 y, w') \<and> has_shape (T2 y) [B, nc])) \<and>
         (H * W \<noteq> 784 \<and> 0 < B \<longrightarrow> forward w (T3 x) = Inl RuntimeError)"
proof -
  from arch obtain W1 b1 W2 b2 W3 b3 where
    ls: "layers (model w) =
      [Flatten, Linear 784 128 W1 (Some b1), ReLU, Linear 128 64 W2 (Some b2), ReLU,
       Linear 64 nc W3 (Some b3)]" and
    len: "length W1 = 128" "length b1 = 128" "length W2 = 64" "length b2 = 64" and
    len3: "length W3 = nc" "length b3 = nc"
    unfolding is_SimpleFCNet_def by blast
  have flat: "list_all (\<lambda>m. length (concat m) = H * W) x"
    by (rule has_shape3_flat [OF shape])
  have B: "length x = B" using shape by simp
  have ok: "\<exists>y w'. forward w (T3 x) = Inr (T2 y, w') \<and> has_shape (T2 y) [B, nc]" if "H * W = 784"
  proof -
    from flat that have "list_all (\<lambda>m. length (concat m) = 784) x" by simp
    from fc_seq_forward [OF len this, of "training (model w)" "gen w" nc W3 b3]
    show ?thesis
      unfolding forward_def ls
      by (cases "training (model w)")
        (simp_all add: Let_def B list_all_iff length_affine len3 softmax_def)
  qed
  have bad: "forward w (T3 x) = Inl RuntimeError" if "H * W \<noteq> 784" "0 < B"
  proof -
    from that B obtain m where "m \<in> set x" by (cases x) auto
    with flat that have "\<not> list_all (\<lambda>m. length (concat m) = 784) x"
      by (auto simp: list_all_iff)
    from fc_seq_forward_mismatch [OF this]
    show ?thesis unfolding forward_def ls by simp
  qed
  from ok bad show ?thesis by blast
qed

lemma fc_net_arch: "is_SimpleFCNet nc (layers (fc_net input_shape nc))"
  unfolding fc_net_def SimpleFCNet_init_layers is_SimpleFCNet_def
  using xavier_uniform_shape by (simp add: is_matrix_def)

lemma fc_net_training: "training (fc_net input_shape nc)"
  unfolding fc_net_def SimpleFCNet_init_layers by simp

lemma black_shape: "has_shape (T3 [black h w]) [1, h, w]"
  by (simp add: black_def list_all_iff)

text \<open>
  Claim C5 at an input the code breaks it on. \<^verbatim>\<open>SimpleFCNet(input_shape=(32, 32),
  num_classes=10)\<close> is built with a first dense layer of input width 784, and its forward
  pass on a batch of one 32 by 32 image, flattened to 1024 entries, raises a
  RuntimeError in training and in inference mode; the claim promises an output of
  shape \<open>[1, 10]\<close>. (\<open>SimpleFCNet_forward_shape\<close> has the general fact: the output has
  shape \<open>[B, nc]\<close> exactly when height times width is 784.)
\<close>

theorem SimpleFCNet_ignores_input_shape:
  "first_linear_in (layers (fc_net (32, 32) 10)) = Some 784 \<and>
   has_shape (T3 [black 32 32]) [1, 32, 32] \<and>
   forward (fresh_world (fc_net (32, 32) 10) g0) (T3 [black 32 32]) = Inl RuntimeError \<and>
   forward (fresh_world ((fc_net (32, 32) 10)\<lparr>training := False\<rparr>) g0) (T3 [black 32 32]) =
     Inl RuntimeError"
proof -
  have a: "first_linear_in (layers (fc_net (32, 32) 10)) = Some 784"
    unfolding fc_net_def SimpleFCNet_init_layers by simp
  have b: "forward (fresh_world (fc_net (32, 32) 10) g0) (T3 [black 32 32]) = Inl RuntimeError"
    using SimpleFCNet_forward_shape [of 10 "fresh_world (fc_net (32, 32) 10) g0" "[black 32 32]" 1 32 32]
      fc_net_arch [of 10 "(32, 32)"] black_shape [of 32 32]
    by (simp add: fresh_world_def)
  have c: "forward (fresh_world ((fc_net (32, 32) 10)\<lparr>training := False\<rparr>) g0) (T3 [black 32 32]) =
     Inl RuntimeError"
    using SimpleFCNet_forward_shape [of 10 "fresh_world ((fc_net (32, 32) 10)\<lparr>training := False\<rparr>) g0"
        "[black 32 32]" 1 32 32]
      fc_net_arch [of 10 "(32, 32)"] black_shape [of 32 32]
    by (simp add: fresh_world_def)
  from a b c black_shape [of 32 32] show ?thesis by blast
qed

section \<open>The forward pass of the convolutional classifier\<close>

lemma shape3_height: "shape3 c h w e \<Longrightarrow> 0 < c \<Longrightarrow> height e = h"
  by (cases e) (auto simp: shape3_def height_def)

lemma shape3_width: "shape3 c h w e \<Longrightarrow> 0 < c \<Longrightarrow> 0 < h \<Longrightarrow> width e = w"
proof -
  assume s: "shape3 c h w e" and c: "0 < c" and h: "0 < h"
  from s c obtain m e' where e: "e = m # e'" by (cases e) (auto simp: shape3_def)
  with s have m: "length m = h" "list_all (\<lambda>r. length r = w) m" by (auto simp: shape3_def)
  with h obtain r m' where "m = r # m'" by (cases m) auto
  with m e show ?thesis by (simp add: width_def)
qed

lemma conv2d_example_shape:
  assumes "shape3 c h w e" "0 < c" "0 < h"
  shows "shape3 (length Wt) (out_size h k s) (out_size w k s) (conv2d_example k s Wt b e)"
  unfolding conv2d_example_def shape3_height [OF assms(1,2)] shape3_width [OF assms]
  by (simp add: shape3_def list_all_iff)

lemma conv2d_fwd_shape:
  assumes sh: "has_shape (T4 x) [B, cin, h, w]"
    and pos: "0 < cin" "0 < k" "0 < s" and fit: "k \<le> h" "k \<le> w"
  shows "\<exists>y. conv2d_fwd cin k s Wt b (T4 x) = Inr (T4 y) \<and>
              has_shape (T4 y) [B, length Wt, out_size h k s, out_size w k s]"
proof -
  from pos fit have h: "0 < h" by simp
  have each: "shape3 cin h w e" if "e \<in> set x" for e
    using sh that by (simp add: list_all_iff)
  have ok: "list_all (conv_ok cin k s) x"
    unfolding list_all_iff conv_ok_def
  proof
    fix e assume e: "e \<in> set x"
    from each [OF e] have "length e = cin" by (simp add: shape3_def)
    with shape3_height [OF each [OF e] pos(1)] shape3_width [OF each [OF e] pos(1) h] pos fit
    show "length e = cin \<and> 0 < s \<and> k \<le> height e \<and> k \<le> width e" by simp
  qed
  have "has_shape (T4 (map (conv2d_example k s Wt b) x))
      [B, length Wt, out_size h k s, out_size w k s]"
    using sh conv2d_example_shape [OF each pos(1) h]
    by (simp add: list_all_iff)
  with ok show ?thesis by simp
qed

lemma bn_example_shape:
  assumes "shape3 c h w e"
  shows "shape3 c h w (bn_example mu var ga be e)"
proof -
  have "length (e ! i) = h \<and> list_all (\<lambda>r. length r = w) (e ! i)" if "i < length e" for i
    using assms that by (simp add: shape3_def list_all_length)
  then show ?thesis
    using assms by (simp add: bn_example_def shape3_def list_all_iff)
qed

lemma values_per_channel_shape:
  assumes "has_shape (T4 x) [B, c, h, w]" "0 < c"
  shows "values_per_channel x = B * h * w"
proof (cases x)
  case Nil
  with assms show ?thesis by (simp add: values_per_channel_def)
next
  case (Cons e x')
  with assms have s: "shape3 c h w e" and B: "length x = B" by simp_all
  show ?thesis
  proof (cases "h = 0")
    case True
    with shape3_height [OF s assms(2)] Cons show ?thesis
      by (simp add: values_per_channel_def)
  next
    case False
    with shape3_height [OF s assms(2)] shape3_width [OF s assms(2)] Cons B show ?thesis
      by (simp add: values_per_channel_def)
  qed
qed

lemma batchnorm2d_fwd_shape:
  assumes sh: "has_shape (T4 x) [B, c, h, w]" and c: "0 < c" and n: "tr \<longrightarrow> B * h * w \<noteq> 1"
  shows "\<exists>y l. batchnorm2d_fwd tr c ga be rm rv nbt (T4 x) = Inr (T4 y, l) \<and>
                has_shape (T4 y) [B, c, h, w]"
proof -
  have ch: "list_all (\<lambda>e. length e = c) x"
    using sh by (simp add: list_all_iff shape3_def)
  have v: "tr \<longrightarrow> values_per_channel x \<noteq> 1"
    using n values_per_channel_shape [OF sh c] by simp
  have out: "has_shape (T4 (map (bn_example mu var ga be) x)) [B, c, h, w]" for mu var
    using sh by (simp add: list_all_iff bn_example_shape)
  show ?thesis
  proof (cases tr)
    case True
    with v have "values_per_channel x \<noteq> 1" by simp
    with True ch out show ?thesis by (simp add: Let_def)
  next
    case False
    with ch out show ?thesis by simp
  qed
qed

lemma relu_shape: "has_shape t sh \<Longrightarrow> has_shape (relu t) sh"
  by (induction t sh rule: has_shape.induct) (auto simp: list_all_iff shape3_def)

lemma maxpool_plane_shape:
  assumes "length m = h" "list_all (\<lambda>r. length r = w) m" "0 < h"
  shows "length (maxpool_plane k s m) = out_size h k s \<and>
         list_all (\<lambda>r. length r = out_size w k s) (maxpool_plane k s m)"
proof -
  from assms obtain r m' where m: "m = r # m'" by (cases m) auto
  with assms have "width [m] = w" by (simp add: width_def)
  with assms show ?thesis
    by (simp add: maxpool_plane_def list_all_iff)
qed

lemma maxpool2d_fwd_shape:
  assumes sh: "has_shape (T4 x) [B, c, h, w]"
    and pos: "0 < c" "0 < k" "0 < s" and fit: "k \<le> h" "k \<le> w"
  shows "\<exists>y. maxpool2d_fwd k s (T4 x) = Inr (T4 y) \<and>
              has_shape (T4 y) [B, c, out_size h k s, out_size w k s]"
proof -
  from pos fit have h: "0 < h" by simp
  have each: "shape3 c h w e" if "e \<in> set x" for e
    using sh that by (simp add: list_all_iff)
  have ok: "list_all (pool_ok k s) x"
    unfolding list_all_iff pool_ok_def
  proof
    fix e assume e: "e \<in> set x"
    with shape3_height [OF each [OF e] pos(1)] shape3_width [OF each [OF e] pos(1) h] pos fit
    show "0 < k \<and> 0 < s \<and> k \<le> height e \<and> k \<le> width e" by simp
  qed
  have pl: "shape3 c (out_size h k s) (out_size w k s) (map (maxpool_plane k s) e)"
    if e: "e \<in> set x" for e
  proof -
    from each [OF e] have "length e = c" and
      "\<And>m. m \<in> set e \<Longrightarrow> length m = h \<and> list_all (\<lambda>r. length r = w) m"
      by (simp_all add: shape3_def list_all_iff)
    then show ?thesis
      using maxpool_plane_shape [OF _ _ h, of _ w k s]
      by (auto simp: shape3_def list_all_iff)
  qed
  have "has_shape (T4 (map (map (maxpool_plane k s)) x))
      [B, c, out_size h k s, out_size w k s]"
    using sh pl by (simp add: list_all_iff)
  with ok show ?thesis by simp
qed

lemma length_concat_uniform:
  "list_all (\<lambda>r. length r = n) m \<Longrightarrow> length (concat m) = length m * n"
  by (induction m) auto

lemma flatten_shape:
  assumes "has_shape (T4 x) [B, c, h, w]"
  shows "has_shape (flatten (T4 x)) [B, c * h * w]"
proof -
  have "length (concat (map concat e)) = c * h * w" if "shape3 c h w e" for e
  proof -
    from that have "list_all (\<lambda>r. length r = h * w) (map concat e)" and "length e = c"
      by (auto simp: shape3_def list_all_iff length_concat_rect)
    from length_concat_uniform [OF this(1)] this(2) show ?thesis by (simp add: mult.assoc)
  qed
  with assms show ?thesis by (simp add: list_all_iff)
qed

lemma relu_T4: "relu (T4 y) = T4 (map (map (map (map (max 0)))) y)"
  by simp

lemma conv_features_shape:
  assumes sh: "has_shape (T4 x) [B, 3, H, W]" and big: "10 \<le> H" "10 \<le> W"
    and W1: "length W1 = 16" and W2: "length W2 = 32"
  shows "\<exists>y ls'. seq_forward tr g
      [Conv2d 3 16 3 1 W1 b1, BatchNorm2d 16 ga1 be1 rm1 rv1 n1, ReLU, MaxPool2d 2 2,
       Conv2d 16 32 3 1 W2 b2, BatchNorm2d 32 ga2 be2 rm2 rv2 n2, ReLU, MaxPool2d 2 2,
       Flatten] (T4 x) = Inr (T2 y, ls', g) \<and>
    has_shape (T2 y) [B, flat_features (H, W)]"
proof -
  define h1 where "h1 = out_size H 3 1"
  define w1 where "w1 = out_size W 3 1"
  define h2 where "h2 = out_size h1 2 2"
  define w2 where "w2 = out_size w1 2 2"
  define h3 where "h3 = out_size h2 3 1"
  define w3 where "w3 = out_size w2 3 1"
  define h4 where "h4 = out_size h3 2 2"
  define w4 where "w4 = out_size w3 2 2"
  note d = h1_def w1_def h2_def w2_def h3_def w3_def h4_def w4_def
  have a1: "2 \<le> h1" "2 \<le> w1" "8 \<le> h1" "8 \<le> w1"
    using big by (simp_all add: h1_def w1_def out_size_def)
  have a2: "3 \<le> h2" "3 \<le> w2"
    using a1(3,4) by (simp_all add: h2_def w2_def out_size_def)
  have a2': "4 \<le> h2" "4 \<le> w2"
    using a1(3,4) by (simp_all add: h2_def w2_def out_size_def)
  have a3: "2 \<le> h3" "2 \<le> w3"
    using a2' by (simp_all add: h3_def w3_def out_size_def)
  have n1: "tr \<longrightarrow> B * h1 * w1 \<noteq> 1"
  proof (cases "B = 0")
    case True then show ?thesis by simp
  next
    case False
    then have "1 \<le> B" by simp
    then have "1 * 2 * 2 \<le> B * h1 * w1"
      by (intro mult_le_mono) (use a1 in simp_all)
    then have "B * h1 * w1 \<noteq> 1" by linarith
    then show ?thesis by blast
  qed
  have n3: "tr \<longrightarrow> B * h3 * w3 \<noteq> 1"
  proof (cases "B = 0")
    case True then show ?thesis by simp
  next
    case False
    then have "1 \<le> B" by simp
    then have "1 * 2 * 2 \<le> B * h3 * w3"
      by (intro mult_le_mono) (use a3 in simp_all)
    then have "B * h3 * w3 \<noteq> 1" by linarith
    then show ?thesis by blast
  qed
  have p16: "(0::nat) < 16" and p32: "(0::nat) < 32" by simp_all
  obtain y1 where c1: "conv2d_fwd 3 3 1 W1 b1 (T4 x) = Inr (T4 y1)"
    and s1: "has_shape (T4 y1) [B, 16, h1, w1]"
    using conv2d_fwd_shape [OF sh, of 3 1 W1 b1] big W1 unfolding d by auto
  obtain y2 l2 where c2: "batchnorm2d_fwd tr 16 ga1 be1 rm1 rv1 n1 (T4 y1) = Inr (T4 y2, l2)"
    and s2: "has_shape (T4 y2) [B, 16, h1, w1]"
    using batchnorm2d_fwd_shape [OF s1 p16 n1] by blast
  define y3 where "y3 = map (map (map (map (max (0::real))))) y2"
  have s3: "has_shape (T4 y3) [B, 16, h1, w1]"
    using relu_shape [OF s2] by (simp add: y3_def)
  obtain y4 where c4: "maxpool2d_fwd 2 2 (T4 y3) = Inr (T4 y4)"
    and s4: "has_shape (T4 y4) [B, 16, h2, w2]"
    using maxpool2d_fwd_shape [OF s3, of 2 2] a1 unfolding d by auto
  obtain y5 where c5: "conv2d_fwd 16 3 1 W2 b2 (T4 y4) = Inr (T4 y5)"
    and s5: "has_shape (T4 y5) [B, 32, h3, w3]"
    using conv2d_fwd_shape [OF s4, of 3 1 W2 b2] a2 W2 unfolding d by auto
  obtain y6 l6 where c6: "batchnorm2d_fwd tr 32 ga2 be2 rm2 rv2 n2 (T4 y5) = Inr (T4 y6, l6)"
    and s6: "has_shape (T4 y6) [B, 32, h3, w3]"
    using batchnorm2d_fwd_shape [OF s5 p32 n3] by blast
  define y7 where "y7 = map (map (map (map (max (0::real))))) y6"
  have s7: "has_shape (T4 y7) [B, 32, h3, w3]"
    using relu_shape [OF s6] by (simp add: y7_def)
  obtain y8 where c8: "maxpool2d_fwd 2 2 (T4 y7) = Inr (T4 y8)"
    and s8: "has_shape (T4 y8) [B, 32, h4, w4]"
    using maxpool2d_fwd_shape [OF s7, of 2 2] a3 unfolding d by auto
  have ff: "flat_features (H, W) = 32 * h4 * w4"
    by (simp add: flat_features_def reduced_def d)
  have s9: "has_shape (flatten (T4 y8)) [B, flat_features (H, W)]"
    unfolding ff by (rule flatten_shape [OF s8])
  have run: "seq_forward tr g
      [Conv2d 3 16 3 1 W1 b1, BatchNorm2d 16 ga1 be1 rm1 rv1 n1, ReLU, MaxPool2d 2 2,
       Conv2d 16 32 3 1 W2 b2, BatchNorm2d 32 ga2 be2 rm2 rv2 n2, ReLU, MaxPool2d 2 2,
       Flatten] (T4 x) =
     Inr (flatten (T4 y8),
       [Conv2d 3 16 3 1 W1 b1, l2, ReLU, MaxPool2d 2 2, Conv2d 16 32 3 1 W2 b2, l6, ReLU,
        MaxPool2d 2 2, Flatten], g)"
    using c1 c2 c4 c5 c6 c8
    by (simp add: y3_def y7_def del: conv2d_fwd.simps batchnorm2d_fwd.simps
        maxpool2d_fwd.simps flatten.simps One_nat_def)
  obtain y where y: "flatten (T4 y8) = T2 y" by simp
  from run s9 show ?thesis unfolding y by blast
qed

lemma seq_forward_append:
  "seq_forward tr g (ls1 @ ls2) x =
     (case seq_forward tr g ls1 x of
        Inl e \<Rightarrow> Inl e
      | Inr (y, ls1', g') \<Rightarrow>
          (case seq_forward tr g' ls2 y of
             Inl e \<Rightarrow> Inl e
           | Inr (z, ls2', g'') \<Rightarrow> Inr (z, ls1' @ ls2', g'')))"
proof (induction ls1 arbitrary: g x)
  case Nil
  show ?case by (simp split: sum.splits prod.splits)
next
  case (Cons l ls1)
  show ?case
    by (simp add: Cons split: sum.splits prod.splits)
qed

lemma linear_head_mismatch:
  assumes "has_shape (T2 y) [B, F]" "F \<noteq> n" "0 < B"
  shows "seq_forward tr g (Linear n m W b # rest) (T2 y) = Inl RuntimeError"
proof -
  from assms obtain r where "r \<in> set y" by (cases y) auto
  with assms have "\<not> list_all (\<lambda>r. length r = n) y"
    by (auto simp: list_all_iff)
  then show ?thesis by simp
qed

lemma map_accum_dropout_shape:
  "list_all (\<lambda>r. length r = n) x \<Longrightarrow>
   list_all (\<lambda>r. length r = n) (fst (map_accum (dropout_vec p) g x))"
proof (induction x arbitrary: g)
  case Nil
  show ?case by simp
next
  case (Cons r x)
  obtain v g1 where a: "dropout_vec p g r = (v, g1)" by (cases "dropout_vec p g r")
  obtain ys g2 where b: "map_accum (dropout_vec p) g1 x = (ys, g2)"
    by (cases "map_accum (dropout_vec p) g1 x")
  from a have "length v = length r"
    by (auto simp: dropout_vec_def draws_def)
  moreover from Cons.IH [of g1] Cons.prems b have "list_all (\<lambda>r. length r = n) ys" by simp
  ultimately show ?case using Cons.prems a b by simp
qed

lemma dropout_fwd_shape:
  assumes "has_shape (T2 y) [B, n]"
  shows "\<exists>y' g'. dropout_fwd tr p g (T2 y) = (T2 y', g') \<and> has_shape (T2 y') [B, n]"
proof (cases tr)
  case False
  with assms show ?thesis by simp
next
  case True
  obtain ys g2 where b: "map_accum (dropout_vec p) g y = (ys, g2)"
    by (cases "map_accum (dropout_vec p) g y")
  from map_accum_length [of "dropout_vec p" g y] b have "length ys = length y" by simp
  moreover from map_accum_dropout_shape [of n y p g] assms b
  have "list_all (\<lambda>r. length r = n) ys" by simp
  ultimately show ?thesis using True b assms by simp
qed

lemma conv_head_shape:
  assumes sh: "has_shape (T2 y) [B, 1152]"
    and len: "length W3 = 256" "length b3 = 256" "length W4 = 128" "length b4 = 128"
      "length W5 = nc" "length b5 = nc"
  shows "\<exists>z g'. seq_forward tr g
      [Linear 1152 256 W3 (Some b3), ReLU, Linear 256 128 W4 (Some b4), ReLU,
       Linear 128 nc W5 (Some b5), Dropout (2 / 10)] (T2 y) =
      Inr (T2 z,
        [Linear 1152 256 W3 (Some b3), ReLU, Linear 256 128 W4 (Some b4), ReLU,
         Linear 128 nc W5 (Some b5), Dropout (2 / 10)], g') \<and>
    has_shape (T2 z) [B, nc]"
proof -
  define z5 where "z5 = map (\<lambda>r. affine W5 (Some b5) (map (max 0) (affine W4 (Some b4)
      (map (max 0) (affine W3 (Some b3) r))))) y"
  have s5: "has_shape (T2 z5) [B, nc]"
    using sh by (simp add: z5_def list_all_iff length_affine len)
  obtain z g' where d: "dropout_fwd tr (2 / 10) g (T2 z5) = (T2 z, g')"
    and sz: "has_shape (T2 z) [B, nc]"
    using dropout_fwd_shape [OF s5] by blast
  have a: "list_all (\<lambda>r. length r = 1152) y" using sh by simp
  have "seq_forward tr g
      [Linear 1152 256 W3 (Some b3), ReLU, Linear 256 128 W4 (Some b4), ReLU,
       Linear 128 nc W5 (Some b5), Dropout (2 / 10)] (T2 y) =
      Inr (T2 z,
        [Linear 1152 256 W3 (Some b3), ReLU, Linear 256 128 W4 (Some b4), ReLU,
         Linear 128 nc W5 (Some b5), Dropout (2 / 10)], g')"
    using a d
    by (simp add: z5_def list_all_iff length_affine len o_def del: dropout_fwd.simps)
  with sz show ?thesis by blast
qed

lemma new_Linear_shape:
  "\<exists>W b g'. new_Linear n m g = (Linear n m W (Some b), g') \<and> length W = m \<and> length b = m"
proof -
  define a where "a = 1 / sqrt (real n)"
  obtain W g1 where u: "uniform_mat (- a) a m n g = (W, g1)"
    by (cases "uniform_mat (- a) a m n g")
  from uniform_mat_shape [of m n "- a" a g] u have "length W = m"
    by (simp add: is_matrix_def)
  then show ?thesis
    unfolding new_Linear_def Let_def a_def [symmetric] u
    by (simp add: uniform_vec_eq)
qed

lemma SimpleConvNet_init_arch:
  "\<exists>n g'. SimpleConvNet_init input_shape nc g = Inr (n, g') \<and>
           is_SimpleConvNet nc (layers n) \<and> training n"
proof -
  obtain W1 b1 g1 where c1: "new_Conv2d 3 16 3 1 g = (Conv2d 3 16 3 1 W1 b1, g1)" "length W1 = 16"
    using new_Conv2d_ex by blast
  obtain W2 b2 g2 where c2: "new_Conv2d 16 32 3 1 g1 = (Conv2d 16 32 3 1 W2 b2, g2)" "length W2 = 32"
    using new_Conv2d_ex by blast
  obtain W3 b3 g3 where l1: "new_Linear 1152 256 g2 = (Linear 1152 256 W3 (Some b3), g3)"
    "length W3 = 256" "length b3 = 256"
    using new_Linear_shape by blast
  obtain W4 b4 g4 where l2: "new_Linear 256 128 g3 = (Linear 256 128 W4 (Some b4), g4)"
    "length W4 = 128" "length b4 = 128"
    using new_Linear_shape by blast
  obtain W5 b5 g5 where l3: "new_Linear 128 nc g4 = (Linear 128 nc W5 (Some b5), g5)"
    "length W5 = nc" "length b5 = nc"
    using new_Linear_shape by blast
  have "SimpleConvNet_init input_shape nc g =
       Inr (\<lparr>layers =
              [Conv2d 3 16 3 1 W1 b1, new_BatchNorm2d 16, ReLU, MaxPool2d 2 2,
               Conv2d 16 32 3 1 W2 b2, new_BatchNorm2d 32, ReLU, MaxPool2d 2 2,
               Flatten,
               Linear 1152 256 W3 (Some b3), ReLU, Linear 256 128 W4 (Some b4), ReLU,
               Linear 128 nc W5 (Some b5), Dropout (2 / 10)],
             training = True\<rparr>, g5)"
    by (simp add: SimpleConvNet_init_def c1 c2 l1 l2 l3 del: One_nat_def)
  moreover have "is_SimpleConvNet nc
              [Conv2d 3 16 3 1 W1 b1, new_BatchNorm2d 16, ReLU, MaxPool2d 2 2,
               Conv2d 16 32 3 1 W2 b2, new_BatchNorm2d 32, ReLU, MaxPool2d 2 2,
               Flatten,
               Linear 1152 256 W3 (Some b3), ReLU, Linear 256 128 W4 (Some b4), ReLU,
               Linear 128 nc W5 (Some b5), Dropout (2 / 10)]"
    unfolding is_SimpleConvNet_def new_BatchNorm2d_def
    using c1(2) c2(2) l1(2,3) l2(2,3) l3(2,3) by blast
  ultimately show ?thesis by simp
qed

lemma conv_net_arch:
  "is_SimpleConvNet nc (layers (conv_net input_shape nc)) \<and> training (conv_net input_shape nc)"
  using SimpleConvNet_init_arch [of input_shape nc g0]
  by (auto simp: conv_net_def)

lemma SimpleConvNet_forward_shape:
  assumes arch: "is_SimpleConvNet nc (layers (model w))"
    and sh: "has_shape (T4 x) [B, 3, H, W]" and big: "10 \<le> H" "10 \<le> W"
  shows "(flat_features (H, W) = 1152 \<longrightarrow>
            (\<exists>y w'. forward w (T4 x) = Inr (T2 y, w') \<and> has_shape (T2 y) [B, nc])) \<and>
         (flat_features (H, W) \<noteq> 1152 \<and> 0 < B \<longrightarrow> forward w (T4 x) = Inl RuntimeError)"
proof -
  from arch obtain W1 b1 ga1 be1 rm1 rv1 n1 W2 b2 ga2 be2 rm2 rv2 n2 W3 b3 W4 b4 W5 b5 where
    ls: "layers (model w) =
       [Conv2d 3 16 3 1 W1 b1, BatchNorm2d 16 ga1 be1 rm1 rv1 n1, ReLU, MaxPool2d 2 2,
        Conv2d 16 32 3 1 W2 b2, BatchNorm2d 32 ga2 be2 rm2 rv2 n2, ReLU, MaxPool2d 2 2,
        Flatten] @
       [Linear 1152 256 W3 (Some b3), ReLU, Linear 256 128 W4 (Some b4), ReLU,
        Linear 128 nc W5 (Some b5), Dropout (2 / 10)]" and
    W: "length W1 = 16" "length W2 = 32" and
    len: "length W3 = 256" "length b3 = 256" "length W4 = 128" "length b4 = 128"
      "length W5 = nc" "length b5 = nc"
    unfolding is_SimpleConvNet_def by auto
  obtain y fs where
    feat: "seq_forward (training (model w)) (gen w)
      [Conv2d 3 16 3 1 W1 b1, BatchNorm2d 16 ga1 be1 rm1 rv1 n1, ReLU, MaxPool2d 2 2,
       Conv2d 16 32 3 1 W2 b2, BatchNorm2d 32 ga2 be2 rm2 rv2 n2, ReLU, MaxPool2d 2 2,
       Flatten] (T4 x) = Inr (T2 y, fs, gen w)" and
    sy: "has_shape (T2 y) [B, flat_features (H, W)]"
    using conv_features_shape [OF sh big W] by blast
  have ok: "\<exists>z w'. forward w (T4 x) = Inr (T2 z, w') \<and> has_shape (T2 z) [B, nc]"
    if eq: "flat_features (H, W) = 1152"
  proof -
    from sy eq have "has_shape (T2 y) [B, 1152]" by simp
    from conv_head_shape [OF this len, of "training (model w)" "gen w"]
    obtain z g' where
      hd: "seq_forward (training (model w)) (gen w)
        [Linear 1152 256 W3 (Some b3), ReLU, Linear 256 128 W4 (Some b4), ReLU,
         Linear 128 nc W5 (Some b5), Dropout (2 / 10)] (T2 y) =
        Inr (T2 z,
          [Linear 1152 256 W3 (Some b3), ReLU, Linear 256 128 W4 (Some b4), ReLU,
           Linear 128 nc W5 (Some b5), Dropout (2 / 10)], g')"
      and sz: "has_shape (T2 z) [B, nc]"
      by blast
    show ?thesis
      unfolding forward_def ls seq_forward_append feat
      using hd sz
      by (cases "training (model w)")
        (simp_all add: Let_def list_all_iff softmax_def del: seq_forward.simps)
  qed
  have bad: "forward w (T4 x) = Inl RuntimeError" if "flat_features (H, W) \<noteq> 1152" "0 < B"
  proof -
    from linear_head_mismatch [OF sy that]
    show ?thesis
      unfolding forward_def ls seq_forward_append feat
      by (simp del: seq_forward.simps)
  qed
  from ok bad show ?thesis by blast
qed

lemma rgb_black_shape: "has_shape (T4 [rgb_black h w]) [1, 3, h, w]"
  by (simp add: rgb_black_def black_def shape3_def list_all_iff)

text \<open>
  Claim C2 at an input the code breaks it on. For \<^verbatim>\<open>SimpleConvNet(input_shape=(28, 28),
  num_classes=100)\<close> the constructor computes \<open>fc_dim = 256\<close> and does not use it; the
  first dense layer has the literal input width 1152; the features of a 28 by 28
  image flatten to \<open>32 * 5 * 5 = 800\<close> entries; and the forward pass on a batch of one
  such image raises a RuntimeError in training and in inference mode. The width the
  claim describes, \<open>flat_features\<close>, is the width the layer stack produces
  (\<open>conv_features_shape\<close>); it is 1152 for the default 32 by 32 input only by the
  choice of the literal (\<open>SimpleConvNet_forward_shape\<close>).
\<close>

theorem SimpleConvNet_hard_coded_width:
  "fc_dim (28, 28) = 256 \<and> flat_features (28, 28) = 800 \<and>
   first_linear_in (layers (conv_net (28, 28) 100)) = Some 1152 \<and>
   has_shape (T4 [rgb_black 28 28]) [1, 3, 28, 28] \<and>
   forward (fresh_world (conv_net (28, 28) 100) g0) (T4 [rgb_black 28 28]) = Inl RuntimeError \<and>
   forward (fresh_world ((conv_net (28, 28) 100)\<lparr>training := False\<rparr>) g0) (T4 [rgb_black 28 28]) =
     Inl RuntimeError"
proof -
  have ff: "flat_features (28, 28) = 800"
    by (simp add: flat_features_def reduced_def out_size_def)
  have fc: "fc_dim (28, 28) = 256"
    by (simp add: fc_dim_def)
  have arch: "is_SimpleConvNet 100 (layers (conv_net (28, 28) 100))"
    using conv_net_arch by blast
  then have fl: "first_linear_in (layers (conv_net (28, 28) 100)) = Some 1152"
    unfolding is_SimpleConvNet_def by auto
  have ne: "flat_features (28, 28) \<noteq> 1152" unfolding ff by simp
  have big: "(10::nat) \<le> 28" by simp
  have one: "(0::nat) < 1" by simp
  have a: "forward (fresh_world (conv_net (28, 28) 100) g0) (T4 [rgb_black 28 28]) = Inl RuntimeError"
    using SimpleConvNet_forward_shape [of 100 "fresh_world (conv_net (28, 28) 100) g0"
        "[rgb_black 28 28]" 1 28 28, OF _ rgb_black_shape big big] arch ne one
    by (simp add: fresh_world_def)
  have b: "forward (fresh_world ((conv_net (28, 28) 100)\<lparr>training := False\<rparr>) g0)
      (T4 [rgb_black 28 28]) = Inl RuntimeError"
    using SimpleConvNet_forward_shape [of 100
        "fresh_world ((conv_net (28, 28) 100)\<lparr>training := False\<rparr>) g0"
        "[rgb_black 28 28]" 1 28 28, OF _ rgb_black_shape big big] arch ne one
    by (simp add: fresh_world_def)
  from fc ff fl rgb_black_shape [of 28 28] a b show ?thesis by blast
qed

section \<open>Logits and probabilities\<close>

lemma sum_softmax: "v \<noteq> [] \<Longrightarrow> sum_list (softmax v) = 1"
proof -
  assume "v \<noteq> []"
  then have "0 < sum_list (map exp v)" by (rule sum_exp_pos)
  then show ?thesis
    by (simp add: softmax_def sum_list_divide)
qed

lemma softmax_dim1_T2: "softmax_dim1 z = T2 y \<Longrightarrow> \<exists>z'. z = T2 z' \<and> y = map softmax z'"
  by (cases z) auto

lemma affine_no_rows: "affine [] (Some b) v = []"
  by (simp add: affine_def)

lemma inference_rows_sum:
  assumes "\<not> training (model w)" "forward w x = Inr (T2 y, w'')"
  shows "list_all (\<lambda>r. r \<noteq> [] \<longrightarrow> sum_list r = 1) y"
proof -
  from assms forward_via_logits [OF assms(1), of x] obtain z where "softmax_dim1 z = T2 y"
    by (auto split: sum.splits prod.splits)
  then obtain z' where y: "y = map softmax z'"
    using softmax_dim1_T2 by blast
  show ?thesis
    unfolding y list_all_iff
  proof
    fix r assume "r \<in> set (map softmax z')"
    then obtain v where r: "r = softmax v" by auto
    show "r \<noteq> [] \<longrightarrow> sum_list r = 1"
    proof
      assume "r \<noteq> []"
      then have "v \<noteq> []" unfolding r by (auto simp: softmax_def)
      then show "sum_list r = 1" unfolding r by (rule sum_softmax)
    qed
  qed
qed

text \<open>
  Claim C6, as the code has it, over the real numbers. In training mode the forward
  pass returns what the layer stack returns, with no softmax applied. In inference mode
  it returns the softmax over dimension 1 of what the layer stack returns, so every
  row of a rank-2 output that has at least one entry sums to 1. For a stack with the
  architecture of \<^verbatim>\<open>SimpleFCNet\<close> with at least one class, on a batch of \<open>B\<close> inputs
  of 784 entries each, the inference output has shape \<open>[B, nc]\<close> and every row sums to
  1; so it is for a stack with the architecture of \<^verbatim>\<open>SimpleConvNet\<close> with at least
  one class on a batch of \<open>B\<close> three-channel images whose features flatten to 1152
  entries. Both classifiers share the text of \<open>forward\<close>.
\<close>

theorem forward_mode_output:
  "(training (model w) \<longrightarrow> forward w x = forward_logits w x) \<and>
   (\<not> training (model w) \<longrightarrow>
      forward w x =
        (case forward_logits w x of
           Inl e \<Rightarrow> Inl e
         | Inr (out, w') \<Rightarrow> Inr (softmax_dim1 out, w'))) \<and>
   (\<not> training (model w) \<and> forward w x = Inr (T2 y, w'') \<longrightarrow>
      list_all (\<lambda>r. r \<noteq> [] \<longrightarrow> sum_list r = 1) y) \<and>
   (is_SimpleFCNet nc (layers (model w)) \<and> \<not> training (model w) \<and> 0 < nc \<and>
    has_shape x [B, H, W] \<and> H * W = 784 \<longrightarrow>
      (\<exists>y' w'. forward w x = Inr (T2 y', w') \<and> has_shape (T2 y') [B, nc] \<and>
         list_all (\<lambda>r. sum_list r = 1) y')) \<and>
   (is_SimpleConvNet nc (layers (model w)) \<and> \<not> training (model w) \<and> 0 < nc \<and>
    has_shape x [B, 3, H, W] \<and> 10 \<le> H \<and> 10 \<le> W \<and> flat_features (H, W) = 1152 \<longrightarrow>
      (\<exists>y' w'. forward w x = Inr (T2 y', w') \<and> has_shape (T2 y') [B, nc] \<and>
         list_all (\<lambda>r. sum_list r = 1) y'))"
proof -
  have a: "forward w x = forward_logits w x" if "training (model w)"
    using that by (simp add: forward_def forward_logits_def Let_def split: sum.splits prod.splits)
  have b: "forward w x =
        (case forward_logits w x of
           Inl e \<Rightarrow> Inl e
         | Inr (out, w') \<Rightarrow> Inr (softmax_dim1 out, w'))" if "\<not> training (model w)"
    using that by (rule forward_via_logits)
  have c: "list_all (\<lambda>r. r \<noteq> [] \<longrightarrow> sum_list r = 1) y"
    if "\<not> training (model w)" "forward w x = Inr (T2 y, w'')" for y w''
    using that by (rule inference_rows_sum)
  have d: "\<exists>y' w'. forward w x = Inr (T2 y', w') \<and> has_shape (T2 y') [B, nc] \<and>
         list_all (\<lambda>r. sum_list r = 1) y'"
    if arch: "is_SimpleFCNet nc (layers (model w))" and tr: "\<not> training (model w)"
      and nc: "0 < nc" and sh: "has_shape x [B, H, W]" and hw: "H * W = 784"
  proof -
    from sh obtain x' where x: "x = T3 x'" by (cases x) auto
    from SimpleFCNet_forward_shape [OF arch sh [unfolded x]] hw obtain y' w' where
      f: "forward w (T3 x') = Inr (T2 y', w')" and s: "has_shape (T2 y') [B, nc]"
      by blast
    from c [OF tr f [folded x]] s nc have "list_all (\<lambda>r. sum_list r = 1) y'"
      by (auto simp: list_all_iff)
    with f s show ?thesis unfolding x by blast
  qed
  have e: "\<exists>y' w'. forward w x = Inr (T2 y', w') \<and> has_shape (T2 y') [B, nc] \<and>
         list_all (\<lambda>r. sum_list r = 1) y'"
    if arch: "is_SimpleConvNet nc (layers (model w))" and tr: "\<not> training (model w)"
      and nc: "0 < nc" and sh: "has_shape x [B, 3, H, W]" and big: "10 \<le> H" "10 \<le> W"
      and ff: "flat_features (H, W) = 1152"
  proof -
    from sh obtain x' where x: "x = T4 x'" by (cases x) auto
    from SimpleConvNet_forward_shape [OF arch sh [unfolded x] big] ff obtain y' w' where
      f: "forward w (T4 x') = Inr (T2 y', w')" and s: "has_shape (T2 y') [B, nc]"
      by blast
    from c [OF tr f [folded x]] s nc have "list_all (\<lambda>r. sum_list r = 1) y'"
      by (auto simp: list_all_iff)
    with f s show ?thesis unfolding x by blast
  qed
  from a b c d e show ?thesis by blast
qed

text \<open>
  The default dense classifier on one 28 by 28 image: raw output in training mode;
  in inference mode one row of ten entries that sums to 1. The default convolutional
  classifier on one 32 by 32 image in inference mode: one row of 100 entries that sums
  to 1.
\<close>

theorem forward_mode_output_witness:
  "forward (fresh_world (fc_net (28, 28) 10) g0) (T3 [black 28 28]) =
     forward_logits (fresh_world (fc_net (28, 28) 10) g0) (T3 [black 28 28]) \<and>
   (\<exists>y' w'. forward (fresh_world ((fc_net (28, 28) 10)\<lparr>training := False\<rparr>) g0) (T3 [black 28 28]) =
        Inr (T2 y', w') \<and>
      has_shape (T2 y') [1, 10] \<and> list_all (\<lambda>r. sum_list r = 1) y') \<and>
   (\<exists>y' w'. forward (fresh_world ((conv_net (32, 32) 100)\<lparr>training := False\<rparr>) g0)
        (T4 [rgb_black 32 32]) = Inr (T2 y', w') \<and>
      has_shape (T2 y') [1, 100] \<and> list_all (\<lambda>r. sum_list r = 1) y')"
proof -
  have a: "training (model (fresh_world (fc_net (28, 28) 10) g0))"
    by (simp add: fresh_world_def fc_net_training)
  have b: "is_SimpleFCNet 10 (layers (model (fresh_world ((fc_net (28, 28) 10)\<lparr>training := False\<rparr>) g0)))"
    using fc_net_arch [of 10 "(28, 28)"] by (simp add: fresh_world_def)
  have c: "\<not> training (model (fresh_world ((fc_net (28, 28) 10)\<lparr>training := False\<rparr>) g0))"
    by (simp add: fresh_world_def)
  have d: "has_shape (T3 [black 28 28]) [1, 28, 28]"
    by (rule black_shape)
  have e: "(28::nat) * 28 = 784" by simp
  have f: "(0::nat) < 10" by simp
  have b': "is_SimpleConvNet 100
      (layers (model (fresh_world ((conv_net (32, 32) 100)\<lparr>training := False\<rparr>) g0)))"
    using conv_net_arch [of 100 "(32, 32)"] by (simp add: fresh_world_def)
  have c': "\<not> training (model (fresh_world ((conv_net (32, 32) 100)\<lparr>training := False\<rparr>) g0))"
    by (simp add: fresh_world_def)
  have d': "has_shape (T4 [rgb_black 32 32]) [1, 3, 32, 32]"
    by (rule rgb_black_shape)
  have e': "flat_features (32, 32) = 1152"
    by (simp add: flat_features_def reduced_def out_size_def)
  have f': "(0::nat) < 100" "(10::nat) \<le> 32" by simp_all
  from forward_mode_output [of "fresh_world (fc_net (28, 28) 10) g0" "T3 [black 28 28]"] a
  have one: "forward (fresh_world (fc_net (28, 28) 10) g0) (T3 [black 28 28]) =
     forward_logits (fresh_world (fc_net (28, 28) 10) g0) (T3 [black 28 28])"
    by blast
  from forward_mode_output [of "fresh_world ((fc_net (28, 28) 10)\<lparr>training := False\<rparr>) g0"
      "T3 [black 28 28]" _ _ 10 1 28 28] b c d e f
  have two: "\<exists>y' w'. forward (fresh_world ((fc_net (28, 28) 10)\<lparr>training := False\<rparr>) g0) (T3 [black 28 28]) =
        Inr (T2 y', w') \<and>
      has_shape (T2 y') [1, 10] \<and> list_all (\<lambda>r. sum_list r = 1) y'"
    by blast
  from forward_mode_output [of "fresh_world ((conv_net (32, 32) 100)\<lparr>training := False\<rparr>) g0"
      "T4 [rgb_black 32 32]" _ _ 100 1 32 32] b' c' d' e' f'
  have three: "\<exists>y' w'. forward (fresh_world ((conv_net (32, 32) 100)\<lparr>training := False\<rparr>) g0)
        (T4 [rgb_black 32 32]) = Inr (T2 y', w') \<and>
      has_shape (T2 y') [1, 100] \<and> list_all (\<lambda>r. sum_list r = 1) y'"
    by blast
  from one two three show ?thesis by blast
qed

text \<open>
  The claim as stated fails for a classifier without classes:
  \<^verbatim>\<open>SimpleFCNet(num_classes=0)\<close> in inference mode returns, for one image, one row
  without entries, and its sum is 0.
\<close>

theorem no_class_output_sums_to_zero:
  "forward (fresh_world ((fc_net (28, 28) 0)\<lparr>training := False\<rparr>) g0) (T3 [black 28 28]) =
     Inr (T2 [[]], (fresh_world ((fc_net (28, 28) 0)\<lparr>training := False\<rparr>) g0)\<lparr>recorded := 1\<rparr>) \<and>
   sum_list ([] :: real list) = 0"
proof -
  have x: "list_all (\<lambda>m. length (concat m) = 784) [black 28 28]"
    using has_shape3_flat [OF black_shape [of 28 28]] by simp
  obtain W1 b1 W2 b2 W3 b3 where
    ls: "layers (fc_net (28, 28) 0) =
      [Flatten, Linear 784 128 W1 (Some b1), ReLU, Linear 128 64 W2 (Some b2), ReLU,
       Linear 64 0 W3 (Some b3)]" and
    len: "length W1 = 128" "length b1 = 128" "length W2 = 64" "length b2 = 64" and
    len3: "length W3 = 0"
    using fc_net_arch [of 0 "(28, 28)"] unfolding is_SimpleFCNet_def by blast
  from len3 have W3: "W3 = []" by simp
  have "forward (fresh_world ((fc_net (28, 28) 0)\<lparr>training := False\<rparr>) g0) (T3 [black 28 28]) =
     Inr (T2 [[]], (fresh_world ((fc_net (28, 28) 0)\<lparr>training := False\<rparr>) g0)\<lparr>recorded := 1\<rparr>)"
    unfolding forward_def
    by (simp add: fresh_world_def ls fc_seq_forward [OF len x] W3 affine_no_rows softmax_def
        del: seq_forward.simps)
  then show ?thesis by simp
qed

end
